theory Spec2Isabelle
  imports Main "HOL-Library.Char_ord" "HOL-Library.List_Lexorder"
begin

section \<open>NohLang: a shallow embedding of \<^verbatim>\<open>noh_interpreter.py\<close>\<close>

text \<open>
  The interpreter reads a program line by line. Every line is cleaned by
  \<^verbatim>\<open>remove_comments\<close> and matched against fixed regular expressions. The embedding
  starts after that step: a line is the constructor of the first pattern that
  \<^verbatim>\<open>execute_lines\<close> (and then \<^verbatim>\<open>interpret_line\<close>) would match, and an expression text
  is the tree \<^verbatim>\<open>ast.parse(text, mode='eval')\<close> returns for it, or \<open>None\<close> when the
  parser raises.

  The Python run-time system is not code of the repository. Its arithmetic, its
  comparisons, indexing, sorting, its values that the interpreter only passes
  around (floats, bytes, complex numbers) and its calls to the operating system are a
  parameter of the model, the record \<open>host\<close>. Every general theorem below holds for
  every host.

  Names and the other fragments of the program text that the patterns capture are kept
  as they are written, as the bytes of their UTF-8 encoding: the interpreter compares
  them and passes them on. A string that is a run-time value is the list of its code
  points.
\<close>

subsection \<open>Values\<close>

text \<open>
  Host objects the interpreter never inspects (floats, complex numbers, bytes). The
  model names them by numbers; what a number stands for is the host's business.
\<close>

datatype pyobj = PyObj nat

text \<open>A Python \<^verbatim>\<open>str\<close> value: its code points.\<close>

type_synonym pystr = "nat list"

text \<open>The constants an \<^verbatim>\<open>ast.Constant\<close> node can hold.\<close>

datatype const = K_None | K_Bool bool | K_Int int | K_Str pystr | K_Atom pyobj

datatype binop = B_Add | B_Sub | B_Mult | B_Div | B_Pow | B_Mod
  | B_FloorDiv | B_MatMult | B_LShift | B_RShift | B_BitOr | B_BitXor | B_BitAnd

datatype unop = U_UAdd | U_USub | U_Not | U_Invert

datatype boolop = B_And | B_Or

datatype cmpop = C_Eq | C_NotEq | C_Lt | C_LtE | C_Gt | C_GtE
  | C_Is | C_IsNot | C_In | C_NotIn

text \<open>
  The expression nodes of Python's \<^verbatim>\<open>ast\<close> module. \<open>E_Other\<close> stands for every node
  kind \<^verbatim>\<open>_eval_node\<close> has no branch for and that is neither an attribute access nor a
  call (lambda, conditional expression, comprehension, slice, starred, f-string, set
  display and so on). A key of \<open>E_Dict\<close> is \<open>None\<close> for a \<^verbatim>\<open>**mapping\<close> entry, as in
  \<^verbatim>\<open>ast.Dict.keys\<close>.
\<close>

datatype expr =
    E_Constant const
  | E_BinOp expr binop expr
  | E_UnaryOp unop expr
  | E_BoolOp boolop "expr list"
  | E_Compare expr "(cmpop \<times> expr) list"
  | E_List "expr list"
  | E_Tuple "expr list"
  | E_Dict "(expr option \<times> expr) list"
  | E_Subscript expr expr
  | E_Name string
  | E_Attribute expr string
  | E_Call expr "expr list"
  | E_Other

text \<open>An expression text as the evaluator sees it: its parse tree, or a parse error.\<close>

type_synonym src = "expr option"

text \<open>
  The single-line commands: one constructor per entry of \<^verbatim>\<open>Interpreter.single_commands\<close>,
  in the order of the table, with the captured groups as arguments (an expression
  text as its parse).
\<close>

datatype command =
    C_Help
  | C_Print string
  | C_Declare string
  | C_Assign string src
  | C_ReadFile string
  | C_Input string
  | C_Output string
  | C_ListVars
  | C_DeleteVar string
  | C_State
  | C_Version
  | C_FileWrite string string
  | C_FileAppend string string
  | C_CurrentTime
  | C_CurrentDate
  | C_HttpRequest string
  | C_JsonLoad string
  | C_JsonDump string
  | C_ListAppend string src
  | C_ListDelete string src
  | C_DictAdd string src src
  | C_DictDelete string src
  | C_Reset
  | C_BuiltinList
  | C_SystemCommand string
  | C_FileDelete string
  | C_FileExists string
  | C_ListDirectory
  | C_ListSort string
  | C_Upper string
  | C_Lower string
  | C_RandomNumber src src
  | C_ShuffleList string
  | C_EnvPrint string
  | C_EnvSet string string
  | C_Power src src
  | C_Sqrt src
  | C_Log src src
  | C_SaveVars string
  | C_LoadVars string
  | C_Exit
  | C_SetPrompt string
  | C_AutoComplete
  | C_ClearScreen
  | C_CwdPrint
  | C_ChangeDirectory string

text \<open>
  A cleaned line, by the first pattern it matches in \<^verbatim>\<open>execute_lines\<close>:
  \<^item> \<open>L_Blank\<close>: empty after \<^verbatim>\<open>remove_comments\<close>;
  \<^item> \<open>L_If c\<close>, \<open>L_Else\<close>, \<open>L_EndIf\<close>: \<^verbatim>\<open>pattern_if\<close>, \<^verbatim>\<open>pattern_else\<close>, \<^verbatim>\<open>pattern_end_if\<close>;
  \<^item> \<open>L_While c\<close>, \<open>L_EndWhile\<close>: \<^verbatim>\<open>pattern_while\<close>, \<^verbatim>\<open>pattern_end_while\<close>;
  \<^item> \<open>L_For x e\<close>, \<open>L_EndFor\<close>: \<^verbatim>\<open>pattern_for\<close>, \<^verbatim>\<open>pattern_end_for\<close>;
  \<^item> \<open>L_FuncDef f ps\<close>, \<open>L_EndFunc\<close>: \<^verbatim>\<open>pattern_func_def\<close> with the parameter list
    split at commas and stripped, \<^verbatim>\<open>pattern_end_func\<close>;
  \<^item> \<open>L_FuncCall f args\<close>: \<^verbatim>\<open>pattern_func_call\<close> with the argument texts split at
    commas;
  \<^item> \<open>L_Break\<close>, \<open>L_Continue\<close>, \<open>L_Return e\<close>: the three signal statements
    (\<open>L_Return None\<close> when the optional group is absent or empty);
  \<^item> \<open>L_Cmd c\<close>: a line an entry of \<^verbatim>\<open>single_commands\<close> matches, \<open>c\<close> being the first
    such entry;
  \<^item> \<open>L_Unknown\<close>: a line no pattern matches.
  The opening patterns start with different literal words, so the tests the block
  scanners make (\<^verbatim>\<open>pattern_if.fullmatch\<close> and so on) agree with the constructor.
\<close>

datatype line =
    L_Blank
  | L_If src
  | L_Else
  | L_EndIf
  | L_While src
  | L_EndWhile
  | L_For string src
  | L_EndFor
  | L_FuncDef string "string list"
  | L_EndFunc
  | L_FuncCall string "src list"
  | L_Break
  | L_Continue
  | L_Return "src option"
  | L_Cmd command
  | L_Unknown

text \<open>
  Run-time values. A scope frame is a Python dict that lives on the heap; \<open>VFunc\<close> is a
  \<^verbatim>\<open>Function\<close> object: its parameter names, its body and the addresses of the frames of
  its closure. \<open>VBuiltin\<close> is one of the callables \<^verbatim>\<open>Interpreter.__init__\<close> stores in the
  first frame.

  Lists, tuples and dicts are values here: the model keeps the contents a name is bound
  to, not the identity of the object. The handlers that change a list or a dict in place
  (append, pop, item assignment, item deletion, shuffle) reach the object through a
  name, and they are modelled as a change of that binding. A second reference to the
  same object (made by assigning one variable to another, or by passing it to a
  function) keeps the old contents in the model. The language has no identity test.
\<close>

datatype val =
    VNone
  | VBool bool
  | VInt int
  | VStr pystr
  | VAtom pyobj
  | VList "val list"
  | VTuple "val list"
  | VDict "(val \<times> val) list"
  | VFunc "string list" "line list" "nat list"
  | VBuiltin string

fun val_of_const :: "const \<Rightarrow> val" where
  "val_of_const K_None = VNone"
| "val_of_const (K_Bool b) = VBool b"
| "val_of_const (K_Int i) = VInt i"
| "val_of_const (K_Str s) = VStr s"
| "val_of_const (K_Atom a) = VAtom a"

subsection \<open>The host: what Python itself computes\<close>

text \<open>
  The world outside the interpreter (files, the clock, the network, the environment,
  the console, the random generator) is a token that every call to the outside takes and
  gives back. The calls the handlers make:
  \<^item> \<open>Sys_ReadFile p\<close>: \<^verbatim>\<open>open(p, 'r', encoding='utf-8').read().strip()\<close>;
  \<^item> \<open>Sys_WriteFile p t\<close>, \<open>Sys_AppendFile p t\<close>: \<^verbatim>\<open>open(p, "w")\<close> or \<^verbatim>\<open>open(p, "a")\<close> and
    \<^verbatim>\<open>write(t)\<close>;
  \<^item> \<open>Sys_Time\<close>, \<open>Sys_Date\<close>: \<^verbatim>\<open>datetime.datetime.now().strftime\<close> with the two formats;
  \<^item> \<open>Sys_HttpGet u\<close>: \<^verbatim>\<open>requests.get(u)\<close>, the status code and the first 200 characters;
  \<^item> \<open>Sys_System c\<close>: \<^verbatim>\<open>os.system(c)\<close>; \<open>Sys_Clear\<close>: \<^verbatim>\<open>os.system\<close> of the command that
    clears the screen;
  \<^item> \<open>Sys_Remove p\<close>, \<open>Sys_Exists p\<close>, \<open>Sys_ListDir\<close>, \<open>Sys_GetCwd\<close>, \<open>Sys_ChDir p\<close>:
    \<^verbatim>\<open>os.remove\<close>, \<^verbatim>\<open>os.path.exists\<close>, \<^verbatim>\<open>os.listdir(".")\<close> joined by commas,
    \<^verbatim>\<open>os.getcwd\<close>, \<^verbatim>\<open>os.chdir\<close>;
  \<^item> \<open>Sys_EnvGet n\<close>, \<open>Sys_EnvSet n v\<close>: \<^verbatim>\<open>os.environ.get(n)\<close> and \<^verbatim>\<open>os.environ[n] = v\<close>;
  \<^item> \<open>Sys_RandInt a b\<close>: \<^verbatim>\<open>random.randint(int(a), int(b))\<close>;
  \<^item> \<open>Sys_SaveVars p items\<close>: \<^verbatim>\<open>open(p, "w")\<close> and \<^verbatim>\<open>json.dump(items, f, default=str)\<close>;
  \<^item> \<open>Sys_Input p\<close>: \<^verbatim>\<open>input(p)\<close>.
  A call returns a value or raises; of the exceptions, the handlers tell
  \<^verbatim>\<open>FileNotFoundError\<close> and \<^verbatim>\<open>json.JSONDecodeError\<close> from the rest.
\<close>

datatype world = World nat

datatype syscall =
    Sys_ReadFile string
  | Sys_WriteFile string string
  | Sys_AppendFile string string
  | Sys_Time
  | Sys_Date
  | Sys_HttpGet string
  | Sys_System string
  | Sys_Clear
  | Sys_Remove string
  | Sys_Exists string
  | Sys_ListDir
  | Sys_GetCwd
  | Sys_ChDir string
  | Sys_EnvGet string
  | Sys_EnvSet string string
  | Sys_RandInt val val
  | Sys_SaveVars string "(string \<times> val) list"
  | Sys_Input string

datatype pyexc = FileNotFoundError | JSONDecodeError | OtherError

datatype answer = Returns val | Raises pyexc

datatype mathfn = Math_Pow | Math_Sqrt | Math_Log

text \<open>
  \<open>None\<close> means that the operation raises. \<open>h_binop\<close> is \<^verbatim>\<open>operator.add\<close>, \<^verbatim>\<open>sub\<close>,
  \<^verbatim>\<open>mul\<close>, \<^verbatim>\<open>truediv\<close>, \<^verbatim>\<open>pow\<close>, \<^verbatim>\<open>mod\<close>; \<open>h_unop\<close> is \<^verbatim>\<open>operator.pos\<close> and \<^verbatim>\<open>neg\<close>;
  \<open>h_compare\<close> is the truth value of \<^verbatim>\<open>operator.eq\<close>, \<^verbatim>\<open>ne\<close>, \<^verbatim>\<open>lt\<close>, \<^verbatim>\<open>le\<close>, \<^verbatim>\<open>gt\<close>,
  \<^verbatim>\<open>ge\<close>; \<open>h_getitem\<close> is \<^verbatim>\<open>container[index]\<close>; \<open>h_dict_insert\<close> is \<^verbatim>\<open>d[k] = v\<close> on a dict
  under construction (it raises on an unhashable key); \<open>h_sorted\<close> is \<^verbatim>\<open>sorted\<close>;
  \<open>h_upper\<close> and \<open>h_lower\<close> are \<^verbatim>\<open>str.upper\<close> and \<^verbatim>\<open>str.lower\<close>; \<open>h_json_ok\<close> tells
  whether \<^verbatim>\<open>json.dumps\<close> accepts the value; \<open>h_atom_truthy\<close> is the truth value of a
  host object and \<open>h_atom_iter\<close> its elements when it has \<^verbatim>\<open>__iter__\<close>.

  \<open>h_int\<close> is \<^verbatim>\<open>int(v)\<close>. \<open>h_dict_find d k\<close> is the test \<^verbatim>\<open>k in d\<close>: it raises on an
  unhashable key, and it gives the position of the item with that key if there is one.
  \<open>h_math\<close> is \<^verbatim>\<open>math.pow\<close>, \<^verbatim>\<open>math.sqrt\<close> and \<^verbatim>\<open>math.log\<close>. \<open>h_strip\<close> is
  \<^verbatim>\<open>str.strip\<close>; \<open>h_unescape t\<close> is \<^verbatim>\<open>bytes(t.strip(), "utf-8").decode("unicode_escape")\<close>;
  \<open>h_json_loads\<close> is \<^verbatim>\<open>json.loads\<close>; \<open>h_re_sub_keys\<close> is the \<^verbatim>\<open>re.sub\<close> call of
  \<^verbatim>\<open>fix_json_string\<close>, which puts double quotes around bare keys. \<open>h_sys\<close> makes a
  call to the outside. \<open>h_shuffle\<close> is \<^verbatim>\<open>random.shuffle\<close>. \<open>h_load_vars w p\<close> is what
  \<^verbatim>\<open>json.load\<close> of the file \<open>p\<close> and \<^verbatim>\<open>dict.update\<close> with its result come to: the items
  that \<^verbatim>\<open>update\<close> stores, in order, and whether both ended without an exception (the
  keys of a JSON object are strings).
\<close>

record host =
  h_binop :: "binop \<Rightarrow> val \<Rightarrow> val \<Rightarrow> val option"
  h_unop :: "unop \<Rightarrow> val \<Rightarrow> val option"
  h_compare :: "cmpop \<Rightarrow> val \<Rightarrow> val \<Rightarrow> bool option"
  h_getitem :: "val \<Rightarrow> val \<Rightarrow> val option"
  h_dict_insert :: "(val \<times> val) list \<Rightarrow> val \<Rightarrow> val \<Rightarrow> (val \<times> val) list option"
  h_atom_truthy :: "pyobj \<Rightarrow> bool"
  h_atom_iter :: "pyobj \<Rightarrow> val list option"
  h_sorted :: "val list \<Rightarrow> val list option"
  h_upper :: "pystr \<Rightarrow> pystr"
  h_lower :: "pystr \<Rightarrow> pystr"
  h_json_ok :: "val \<Rightarrow> bool"
  h_int :: "val \<Rightarrow> int option"
  h_dict_find :: "(val \<times> val) list \<Rightarrow> val \<Rightarrow> nat option option"
  h_math :: "mathfn \<Rightarrow> val list \<Rightarrow> val option"
  h_strip :: "pystr \<Rightarrow> pystr"
  h_unescape :: "string \<Rightarrow> pystr option"
  h_json_loads :: "pystr \<Rightarrow> answer"
  h_re_sub_keys :: "pystr \<Rightarrow> pystr"
  h_sys :: "world \<Rightarrow> syscall \<Rightarrow> answer \<times> world"
  h_shuffle :: "world \<Rightarrow> val list \<Rightarrow> val list \<times> world"
  h_load_vars :: "world \<Rightarrow> string \<Rightarrow> ((string \<times> val) list \<times> bool) \<times> world"

text \<open>Python's truth value of an object (\<^verbatim>\<open>bool(v)\<close>).\<close>

fun truthy :: "host \<Rightarrow> val \<Rightarrow> bool" where
  "truthy h VNone = False"
| "truthy h (VBool b) = b"
| "truthy h (VInt i) = (i \<noteq> 0)"
| "truthy h (VStr s) = (s \<noteq> [])"
| "truthy h (VAtom a) = h_atom_truthy h a"
| "truthy h (VList xs) = (xs \<noteq> [])"
| "truthy h (VTuple xs) = (xs \<noteq> [])"
| "truthy h (VDict kvs) = (kvs \<noteq> [])"
| "truthy h (VFunc ps b cl) = True"
| "truthy h (VBuiltin n) = True"

text \<open>
  What \<^verbatim>\<open>process_for\<close> finds when it iterates a value: \<open>NotIterable\<close> when
  \<^verbatim>\<open>hasattr(v, '__iter__')\<close> is false, the elements \<^verbatim>\<open>for item in v\<close> yields otherwise
  (of a string its characters, of a dict its keys).
  The type \<^verbatim>\<open>str\<close>, one of the builtins, has the attribute \<^verbatim>\<open>__iter__\<close> and is still
  not iterable: the \<^verbatim>\<open>for\<close> statement raises \<^verbatim>\<open>TypeError\<close> on it.
\<close>

datatype iteration = NotIterable | Items "val list" | IterationRaises

fun iter_items :: "host \<Rightarrow> val \<Rightarrow> iteration" where
  "iter_items h (VList xs) = Items xs"
| "iter_items h (VTuple xs) = Items xs"
| "iter_items h (VStr s) = Items (map (\<lambda>c. VStr [c]) s)"
| "iter_items h (VDict kvs) = Items (map fst kvs)"
| "iter_items h (VAtom a) = (case h_atom_iter h a of None \<Rightarrow> NotIterable | Some xs \<Rightarrow> Items xs)"
| "iter_items h (VBuiltin n) = (if n = ''str'' then IterationRaises else NotIterable)"
| "iter_items h v = NotIterable"

subsection \<open>The safe evaluator\<close>

datatype eval_error =
    ParseError
  | UnsupportedBinOp binop
  | UnsupportedUnaryOp unop
  | UnsupportedCompareOp cmpop
  | Unassigned string
  | Undeclared string
  | UnsupportedNode
  | HostRaised

text \<open>The three operator tables of the module.\<close>

fun allowed_operators :: "binop \<Rightarrow> bool" where
  "allowed_operators B_Add = True"
| "allowed_operators B_Sub = True"
| "allowed_operators B_Mult = True"
| "allowed_operators B_Div = True"
| "allowed_operators B_Pow = True"
| "allowed_operators B_Mod = True"
| "allowed_operators b = False"

fun allowed_unary_operators :: "unop \<Rightarrow> bool" where
  "allowed_unary_operators U_UAdd = True"
| "allowed_unary_operators U_USub = True"
| "allowed_unary_operators U_Not = True"
| "allowed_unary_operators U_Invert = False"

fun allowed_compare_ops :: "cmpop \<Rightarrow> bool" where
  "allowed_compare_ops C_Eq = True"
| "allowed_compare_ops C_NotEq = True"
| "allowed_compare_ops C_Lt = True"
| "allowed_compare_ops C_LtE = True"
| "allowed_compare_ops C_Gt = True"
| "allowed_compare_ops C_GtE = True"
| "allowed_compare_ops c = False"

definition raised :: "'a option \<Rightarrow> eval_error + 'a" where
  "raised r = (case r of None \<Rightarrow> Inl HostRaised | Some v \<Rightarrow> Inr v)"

text \<open>
  The consumers of the operand results. \<^verbatim>\<open>all(...)\<close> and \<^verbatim>\<open>any(...)\<close> draw the operand
  values from a generator and stop at the first value that decides the result: a later
  operand is not evaluated, so neither its value nor its exception is seen.
  \<open>compare_chain\<close> is the loop over \<^verbatim>\<open>zip(node.ops, node.comparators)\<close>, which returns
  at the first false link. \<open>collect\<close> is the list or tuple comprehension and
  \<open>dict_items\<close> the dict comprehension: they stop at the first exception. Evaluation
  has no effect, so the results of the operands that Python skips are computed
  here and ignored.
\<close>

fun all_results :: "host \<Rightarrow> (eval_error + val) list \<Rightarrow> eval_error + val" where
  "all_results h [] = Inr (VBool True)"
| "all_results h (Inl err # rs) = Inl err"
| "all_results h (Inr v # rs) = (if truthy h v then all_results h rs else Inr (VBool False))"

fun any_results :: "host \<Rightarrow> (eval_error + val) list \<Rightarrow> eval_error + val" where
  "any_results h [] = Inr (VBool False)"
| "any_results h (Inl err # rs) = Inl err"
| "any_results h (Inr v # rs) = (if truthy h v then Inr (VBool True) else any_results h rs)"

fun compare_chain :: "host \<Rightarrow> val \<Rightarrow> (cmpop \<times> (eval_error + val)) list \<Rightarrow> eval_error + val" where
  "compare_chain h left [] = Inr (VBool True)"
| "compare_chain h left ((c, Inl err) # rest) = Inl err"
| "compare_chain h left ((c, Inr cv) # rest) =
     (if \<not> allowed_compare_ops c then Inl (UnsupportedCompareOp c)
      else (case h_compare h c left cv of
              None \<Rightarrow> Inl HostRaised
            | Some b \<Rightarrow> if \<not> b then Inr (VBool False) else compare_chain h cv rest))"

fun collect :: "(eval_error + val) list \<Rightarrow> eval_error + val list" where
  "collect [] = Inr []"
| "collect (Inl err # rs) = Inl err"
| "collect (Inr v # rs) = (case collect rs of Inl err \<Rightarrow> Inl err | Inr vs \<Rightarrow> Inr (v # vs))"

fun dict_items :: "host \<Rightarrow> (val \<times> val) list
    \<Rightarrow> ((eval_error + val) option \<times> (eval_error + val)) list \<Rightarrow> eval_error + (val \<times> val) list" where
  "dict_items h d [] = Inr d"
| "dict_items h d ((None, r) # rest) = Inl UnsupportedNode"
| "dict_items h d ((Some (Inl err), r) # rest) = Inl err"
| "dict_items h d ((Some (Inr kv), Inl err) # rest) = Inl err"
| "dict_items h d ((Some (Inr kv), Inr v) # rest) =
     (case h_dict_insert h d kv v of
        None \<Rightarrow> Inl HostRaised
      | Some d' \<Rightarrow> dict_items h d' rest)"

text \<open>\<^verbatim>\<open>_eval_node\<close>, one equation per branch of the \<^verbatim>\<open>isinstance\<close> chain.\<close>

primrec eval_node :: "host \<Rightarrow> (string \<Rightarrow> val option) \<Rightarrow> expr \<Rightarrow> eval_error + val" where
  "eval_node h vars (E_Constant c) = Inr (val_of_const c)"
| "eval_node h vars (E_BinOp l b r) =
     (case eval_node h vars l of Inl err \<Rightarrow> Inl err | Inr lv \<Rightarrow>
      (case eval_node h vars r of Inl err \<Rightarrow> Inl err | Inr rv \<Rightarrow>
       if \<not> allowed_operators b then Inl (UnsupportedBinOp b)
       else raised (h_binop h b lv rv)))"
| "eval_node h vars (E_UnaryOp u e) =
     (case eval_node h vars e of Inl err \<Rightarrow> Inl err | Inr v \<Rightarrow>
       if \<not> allowed_unary_operators u then Inl (UnsupportedUnaryOp u)
       else if u = U_Not then Inr (VBool (\<not> truthy h v))
       else raised (h_unop h u v))"
| "eval_node h vars (E_BoolOp b es) =
     (case b of
        B_And \<Rightarrow> all_results h (map (eval_node h vars) es)
      | B_Or \<Rightarrow> any_results h (map (eval_node h vars) es))"
| "eval_node h vars (E_Compare l rest) =
     (case eval_node h vars l of Inl err \<Rightarrow> Inl err | Inr lv \<Rightarrow>
        compare_chain h lv (map (map_prod id (eval_node h vars)) rest))"
| "eval_node h vars (E_List es) =
     (case collect (map (eval_node h vars) es) of Inl err \<Rightarrow> Inl err | Inr vs \<Rightarrow> Inr (VList vs))"
| "eval_node h vars (E_Tuple es) =
     (case collect (map (eval_node h vars) es) of Inl err \<Rightarrow> Inl err | Inr vs \<Rightarrow> Inr (VTuple vs))"
| "eval_node h vars (E_Dict kvs) =
     (case dict_items h [] (map (map_prod (map_option (eval_node h vars)) (eval_node h vars)) kvs) of
        Inl err \<Rightarrow> Inl err
      | Inr d \<Rightarrow> Inr (VDict d))"
| "eval_node h vars (E_Subscript c i) =
     (case eval_node h vars c of Inl err \<Rightarrow> Inl err | Inr cv \<Rightarrow>
      (case eval_node h vars i of Inl err \<Rightarrow> Inl err | Inr iv \<Rightarrow>
       raised (h_getitem h cv iv)))"
| "eval_node h vars (E_Name x) =
     (case vars x of
        None \<Rightarrow> Inl (Undeclared x)
      | Some v \<Rightarrow> (case v of VNone \<Rightarrow> Inl (Unassigned x) | _ \<Rightarrow> Inr v))"
| "eval_node h vars (E_Attribute e a) = Inl UnsupportedNode"
| "eval_node h vars (E_Call f args) = Inl UnsupportedNode"
| "eval_node h vars E_Other = Inl UnsupportedNode"

text \<open>
  \<^verbatim>\<open>safe_eval\<close>: a parse error and every exception of \<^verbatim>\<open>_eval_node\<close> leave as the one
  \<^verbatim>\<open>ValueError\<close> "unsafe expression", which keeps the cause in its message. The AST cache
  only saves parsing the same text again.
\<close>

datatype unsafe = Unsafe eval_error

definition safe_eval :: "host \<Rightarrow> src \<Rightarrow> (string \<Rightarrow> val option) \<Rightarrow> unsafe + val" where
  "safe_eval h expression variables =
     (case expression of
        None \<Rightarrow> Inl (Unsafe ParseError)
      | Some tree \<Rightarrow>
          (case eval_node h variables tree of
             Inl err \<Rightarrow> Inl (Unsafe err)
           | Inr v \<Rightarrow> Inr v))"

subsection \<open>Interpreter state\<close>

text \<open>
  The exceptions that can leave a statement: the three control-flow signals,
  \<^verbatim>\<open>SystemExit\<close> of the exit command, \<^verbatim>\<open>IndexError\<close> of \<^verbatim>\<open>self.scopes[-1]\<close> on an empty
  stack, and an exception of a host operation that no handler catches.
\<close>

datatype exc =
    BreakException
  | ContinueException
  | ReturnException val
  | SystemExit
  | IndexError
  | HostException

datatype outcome = Normal | Raise exc

text \<open>
  What \<^verbatim>\<open>eungdi\<close> is given to write, with the values the message is formatted from.
  The line-number prefix is left out. \<open>M_Succeeded c v\<close> is the message the handler of
  the command \<open>c\<close> writes when its operation went through, \<open>v\<close> being the value the
  message shows (\<^verbatim>\<open>None\<close> when it shows none); \<open>M_Failed c\<close> is the error message of the
  \<^verbatim>\<open>except\<close> branch of that handler.
\<close>

datatype msg =
    M_Help
  | M_Text string
  | M_Value val
  | M_AlreadyDeclared string
  | M_NotDeclared string
  | M_EvalError unsafe
  | M_Deleted string
  | M_NotInCurrentScope string
  | M_State "(string \<times> val) list"
  | M_Version
  | M_Json val
  | M_JsonFailed
  | M_NoSuchVariable string
  | M_ResetDone
  | M_BuiltinList "string list"
  | M_Sorted string
  | M_NotAList string
  | M_Uppercased string
  | M_Lowercased string
  | M_NotAString string
  | M_Exit
  | M_PromptSet string
  | M_UnknownCommand
  | M_CannotPopGlobal
  | M_NotIterable
  | M_ArityMismatch nat nat
  | M_NotAFunction string
  | M_CallStart "val list"
  | M_CallEnd val
  | M_RuntimeError exc
  | M_Succeeded command val
  | M_Failed command
  | M_FileNotFound string
  | M_Var string val
  | M_JsonDecodingFailed
  | M_NotADict string
  | M_KeyMissing string val
  | M_Commands

text \<open>A scope frame: a Python dict from names to values, in insertion order.\<close>

type_synonym frame = "(string \<times> val) list"

text \<open>
  \<open>scopes\<close> is \<^verbatim>\<open>Interpreter.scopes\<close>, a list of references to dicts: addresses into
  \<open>heap\<close>. \<open>logged\<close> is what reached the logging sink, each message with its error flag.
  \<open>world\<close> is the world outside as the last call left it.
\<close>

record state =
  scopes :: "nat list"
  heap :: "frame list"
  logged :: "(msg \<times> bool) list"
  debug :: bool
  fast :: bool
  prompt :: string
  input_buffer :: "pystr list"
  world :: world

definition frame_at :: "frame list \<Rightarrow> nat \<Rightarrow> frame" where
  "frame_at hp a = (if a < length hp then hp ! a else [])"

text \<open>\<^verbatim>\<open>d[k] = v\<close>: a present key keeps its place, a new key goes last.\<close>

fun frame_set :: "string \<Rightarrow> val \<Rightarrow> frame \<Rightarrow> frame" where
  "frame_set k v [] = [(k, v)]"
| "frame_set k v ((k', v') # f) = (if k' = k then (k, v) # f else (k', v') # frame_set k v f)"

definition frame_has :: "string \<Rightarrow> frame \<Rightarrow> bool" where
  "frame_has k f = (map_of f k \<noteq> None)"

definition frame_del :: "string \<Rightarrow> frame \<Rightarrow> frame" where
  "frame_del k f = filter (\<lambda>kv. fst kv \<noteq> k) f"

text \<open>
  \<^verbatim>\<open>eungdi(message, error)\<close>: under \<^verbatim>\<open>fast\<close> only errors are written. (The extra
  \<^verbatim>\<open>logging.debug\<close> line of debug mode is below the level of the root logger.)
\<close>

definition eungdi :: "msg \<Rightarrow> bool \<Rightarrow> state \<Rightarrow> state" where
  "eungdi message error s =
     (if fast s \<and> \<not> error then s else s\<lparr>logged := logged s @ [(message, error)]\<rparr>)"

definition push_scope :: "state \<Rightarrow> state" where
  "push_scope s = s\<lparr>scopes := scopes s @ [length (heap s)], heap := heap s @ [[]]\<rparr>"

definition pop_scope :: "state \<Rightarrow> state" where
  "pop_scope s =
     (if length (scopes s) > 1 then s\<lparr>scopes := butlast (scopes s)\<rparr>
      else eungdi M_CannotPopGlobal True s)"

text \<open>The search \<^verbatim>\<open>for scope in reversed(self.scopes)\<close>; the list given is already reversed.\<close>

fun lookup_in :: "string \<Rightarrow> nat list \<Rightarrow> frame list \<Rightarrow> val option" where
  "lookup_in x [] hp = None"
| "lookup_in x (a # as) hp =
     (case map_of (frame_at hp a) x of Some v \<Rightarrow> Some v | None \<Rightarrow> lookup_in x as hp)"

fun assign_in :: "string \<Rightarrow> val \<Rightarrow> nat list \<Rightarrow> frame list \<Rightarrow> frame list option" where
  "assign_in x v [] hp = None"
| "assign_in x v (a # as) hp =
     (if frame_has x (frame_at hp a) then Some (hp[a := frame_set x v (frame_at hp a)])
      else assign_in x v as hp)"

text \<open>
  \<^verbatim>\<open>get_combined_scope\<close>: the \<^verbatim>\<open>ChainMap\<close> over the reversed stack, as the lookup the
  evaluator makes in it; the innermost frame that has the name wins.
\<close>

definition get_combined_scope :: "state \<Rightarrow> string \<Rightarrow> val option" where
  "get_combined_scope s = (\<lambda>x. lookup_in x (rev (scopes s)) (heap s))"

text \<open>
  \<^verbatim>\<open>dict(self.get_combined_scope())\<close> as a list of items: the keys in the order
  \<^verbatim>\<open>ChainMap.__iter__\<close> gives them (outermost frame first, a name at its first place).
\<close>

definition combined_items :: "state \<Rightarrow> (string \<times> val) list" where
  "combined_items s =
     (let keys = rev (remdups (rev (concat (map (\<lambda>a. map fst (frame_at (heap s) a)) (scopes s)))))
      in List.map_filter (\<lambda>k. map_option (Pair k) (get_combined_scope s k)) keys)"

definition declare_variable :: "string \<Rightarrow> state \<Rightarrow> outcome \<times> state" where
  "declare_variable var_name s =
     (if scopes s = [] then (Raise IndexError, s)
      else let a = last (scopes s) in
        if frame_has var_name (frame_at (heap s) a)
        then (Normal, eungdi (M_AlreadyDeclared var_name) True s)
        else (Normal, s\<lparr>heap := (heap s)[a := frame_set var_name VNone (frame_at (heap s) a)]\<rparr>))"

definition assign_variable :: "string \<Rightarrow> val \<Rightarrow> state \<Rightarrow> state" where
  "assign_variable var_name v s =
     (case assign_in var_name v (rev (scopes s)) (heap s) of
        Some hp \<Rightarrow> s\<lparr>heap := hp\<rparr>
      | None \<Rightarrow> eungdi (M_NotDeclared var_name) True s)"

definition get_variable :: "string \<Rightarrow> state \<Rightarrow> val \<times> state" where
  "get_variable var_name s =
     (case lookup_in var_name (rev (scopes s)) (heap s) of
        Some v \<Rightarrow> (v, s)
      | None \<Rightarrow> (VNone, eungdi (M_NotDeclared var_name) True s))"

text \<open>
  \<^verbatim>\<open>evaluate_expression\<close>: an exception of \<^verbatim>\<open>safe_eval\<close> is written as an error and the
  result is \<^verbatim>\<open>None\<close>, the same value an expression that evaluates to \<^verbatim>\<open>None\<close> gives.
\<close>

definition evaluate_expression :: "host \<Rightarrow> src \<Rightarrow> state \<Rightarrow> val \<times> state" where
  "evaluate_expression h expression s =
     (case safe_eval h expression (get_combined_scope s) of
        Inr v \<Rightarrow> (v, s)
      | Inl err \<Rightarrow> (VNone, eungdi (M_EvalError err) True s))"

subsection \<open>The handlers of single-line commands\<close>

text \<open>
  A handler that has every operation that can fail inside a \<^verbatim>\<open>try\<close> statement, or
  behind a test, gives the state it leaves. A handler that performs such an operation
  outside any \<^verbatim>\<open>try\<close> gives an outcome too: the exception leaves the handler.
\<close>

text \<open>A call to the outside, in the world of the state.\<close>

definition sys :: "host \<Rightarrow> syscall \<Rightarrow> state \<Rightarrow> answer \<times> state" where
  "sys h c s = (case h_sys h (world s) c of (a, w) \<Rightarrow> (a, s\<lparr>world := w\<rparr>))"

text \<open>
  The shape most handlers of this kind have:
  \<^verbatim>\<open>try: v = call(); self.eungdi(success) except Exception as e: self.eungdi(failure, error=True)\<close>.
\<close>

definition try_sys :: "host \<Rightarrow> command \<Rightarrow> syscall \<Rightarrow> state \<Rightarrow> state" where
  "try_sys h c request s =
     (case sys h request s of
        (Returns v, s1) \<Rightarrow> eungdi (M_Succeeded c v) False s1
      | (Raises x, s1) \<Rightarrow> eungdi (M_Failed c) True s1)"

text \<open>The same call with no \<^verbatim>\<open>try\<close> around it: \<^verbatim>\<open>v = call(); self.eungdi(message)\<close>.\<close>

definition bare_sys :: "host \<Rightarrow> command \<Rightarrow> syscall \<Rightarrow> state \<Rightarrow> outcome \<times> state" where
  "bare_sys h c request s =
     (case sys h request s of
        (Returns v, s1) \<Rightarrow> (Normal, eungdi (M_Succeeded c v) False s1)
      | (Raises x, s1) \<Rightarrow> (Raise HostException, s1))"

definition handle_assign :: "host \<Rightarrow> string \<Rightarrow> src \<Rightarrow> state \<Rightarrow> state" where
  "handle_assign h var_name expression s =
     (let (v, s1) = evaluate_expression h expression s
      in case v of VNone \<Rightarrow> s1 | _ \<Rightarrow> assign_variable var_name v s1)"

text \<open>\<^verbatim>\<open>read_file\<close> catches every exception and returns \<^verbatim>\<open>None\<close> after one.\<close>

definition read_file :: "host \<Rightarrow> string \<Rightarrow> state \<Rightarrow> val \<times> state" where
  "read_file h file_path s =
     (case sys h (Sys_ReadFile file_path) s of
        (Returns v, s1) \<Rightarrow> (v, s1)
      | (Raises x, s1) \<Rightarrow>
          (VNone, (case x of
                     FileNotFoundError \<Rightarrow> eungdi (M_FileNotFound file_path) True s1
                   | _ \<Rightarrow> eungdi (M_Failed (C_ReadFile file_path)) True s1)))"

definition handle_readfile :: "host \<Rightarrow> string \<Rightarrow> state \<Rightarrow> state" where
  "handle_readfile h file_path s =
     (let (content, s1) = read_file h file_path s
      in case content of
           VNone \<Rightarrow> s1
         | _ \<Rightarrow> eungdi (M_Succeeded (C_ReadFile file_path) content) False s1)"

text \<open>
  \<^verbatim>\<open>get_user_input\<close> takes the first line of the buffer when there is one and calls
  \<^verbatim>\<open>input\<close> otherwise, which raises \<^verbatim>\<open>EOFError\<close> at the end of the input; nothing catches
  it.
\<close>

definition handle_input :: "host \<Rightarrow> string \<Rightarrow> state \<Rightarrow> outcome \<times> state" where
  "handle_input h p s =
     (case input_buffer s of
        t # ts \<Rightarrow> (Normal, eungdi (M_Succeeded (C_Input p) (VStr t)) False (s\<lparr>input_buffer := ts\<rparr>))
      | [] \<Rightarrow> bare_sys h (C_Input p) (Sys_Input (p @ '': '')) s)"

definition handle_output :: "string \<Rightarrow> state \<Rightarrow> state" where
  "handle_output var_name s = (let (v, s1) = get_variable var_name s in eungdi (M_Value v) False s1)"

text \<open>
  \<^verbatim>\<open>handle_list_vars\<close>: one message per item of \<^verbatim>\<open>sorted(combined.items())\<close>. The names
  are different from one another, so \<^verbatim>\<open>sorted\<close> orders the pairs by the names and
  compares no values; the order of two strings by code points is the order of their
  UTF-8 encodings by bytes.
\<close>

definition handle_list_vars :: "state \<Rightarrow> state" where
  "handle_list_vars s =
     fold (\<lambda>kv. eungdi (M_Var (fst kv) (snd kv)) False) (sort_key fst (combined_items s)) s"

definition handle_delete_var :: "string \<Rightarrow> state \<Rightarrow> outcome \<times> state" where
  "handle_delete_var var_name s =
     (if scopes s = [] then (Raise IndexError, s)
      else let a = last (scopes s) in
        if frame_has var_name (frame_at (heap s) a)
        then (Normal, eungdi (M_Deleted var_name) False
                (s\<lparr>heap := (heap s)[a := frame_del var_name (frame_at (heap s) a)]\<rparr>))
        else (Normal, eungdi (M_NotInCurrentScope var_name) True s))"

text \<open>
  \<^verbatim>\<open>handle_json_load\<close>. The first \<^verbatim>\<open>try\<close> catches every exception of the decoding; the
  two around \<^verbatim>\<open>json.loads\<close> catch \<^verbatim>\<open>json.JSONDecodeError\<close> only. Code point 34 is the
  double quote and 39 the single quote.
\<close>

definition unquote :: "host \<Rightarrow> pystr \<Rightarrow> pystr" where
  "unquote h t = (if t \<noteq> [] \<and> hd t = 34 \<and> last t = 34 then h_strip h (butlast (tl t)) else t)"

definition fix_json_string :: "host \<Rightarrow> pystr \<Rightarrow> pystr" where
  "fix_json_string h json_str =
     h_strip h (map (\<lambda>c. if c = 39 then 34 else c) (h_re_sub_keys h (h_strip h json_str)))"

definition handle_json_load :: "host \<Rightarrow> string \<Rightarrow> state \<Rightarrow> outcome \<times> state" where
  "handle_json_load h t s =
     (case h_unescape h t of
        None \<Rightarrow> (Normal, eungdi M_JsonDecodingFailed True s)
      | Some decoded \<Rightarrow>
          (let json_str = unquote h decoded
           in case h_json_loads h json_str of
                Returns obj \<Rightarrow> (Normal, eungdi (M_Succeeded (C_JsonLoad t) obj) False s)
              | Raises x \<Rightarrow>
                  (case x of
                     JSONDecodeError \<Rightarrow>
                       (case h_json_loads h (fix_json_string h json_str) of
                          Returns obj \<Rightarrow> (Normal, eungdi (M_Succeeded (C_JsonLoad t) obj) False s)
                        | Raises y \<Rightarrow>
                            (case y of
                               JSONDecodeError \<Rightarrow> (Normal, eungdi (M_Failed (C_JsonLoad t)) True s)
                             | _ \<Rightarrow> (Raise HostException, s)))
                   | _ \<Rightarrow> (Raise HostException, s))))"

definition handle_json_dump :: "host \<Rightarrow> string \<Rightarrow> state \<Rightarrow> state" where
  "handle_json_dump h var_name s =
     (let (obj, s1) = get_variable var_name s
      in case obj of
           VNone \<Rightarrow> eungdi (M_NoSuchVariable var_name) True s1
         | _ \<Rightarrow> if h_json_ok h obj then eungdi (M_Json obj) False s1
                 else eungdi M_JsonFailed True s1)"

text \<open>
  \<^verbatim>\<open>handle_list_append\<close>: the value appended is whatever the evaluation gives, also the
  \<^verbatim>\<open>None\<close> of a failed evaluation.
\<close>

definition handle_list_append :: "host \<Rightarrow> string \<Rightarrow> src \<Rightarrow> state \<Rightarrow> state" where
  "handle_list_append h var_name value_expr s =
     (let (lst, s1) = get_variable var_name s
      in case lst of
           VList xs \<Rightarrow>
             (let (v, s2) = evaluate_expression h value_expr s1
              in eungdi (M_Succeeded (C_ListAppend var_name value_expr) VNone) False
                   (assign_variable var_name (VList (xs @ [v])) s2))
         | _ \<Rightarrow> eungdi (M_NotAList var_name) True s1)"

text \<open>
  \<^verbatim>\<open>list.pop(i)\<close>: a negative index counts from the end; an index out of range raises
  \<^verbatim>\<open>IndexError\<close>.
\<close>

definition list_pop :: "val list \<Rightarrow> int \<Rightarrow> val list option" where
  "list_pop xs i =
     (let n = int (length xs); j = (if i < 0 then i + n else i)
      in if 0 \<le> j \<and> j < n then Some (take (nat j) xs @ drop (Suc (nat j)) xs) else None)"

text \<open>\<^verbatim>\<open>handle_list_delete\<close>: the conversion of the index and the \<^verbatim>\<open>pop\<close> are inside a \<^verbatim>\<open>try\<close>.\<close>

definition handle_list_delete :: "host \<Rightarrow> string \<Rightarrow> src \<Rightarrow> state \<Rightarrow> state" where
  "handle_list_delete h var_name index_expr s =
     (let (lst, s1) = get_variable var_name s
      in case lst of
           VList xs \<Rightarrow>
             (let (iv, s2) = evaluate_expression h index_expr s1
              in case h_int h iv of
                   None \<Rightarrow> eungdi (M_Failed (C_ListDelete var_name index_expr)) True s2
                 | Some i \<Rightarrow>
                     (case list_pop xs i of
                        None \<Rightarrow> eungdi (M_Failed (C_ListDelete var_name index_expr)) True s2
                      | Some ys \<Rightarrow>
                          eungdi (M_Succeeded (C_ListDelete var_name index_expr) (VInt i)) False
                            (assign_variable var_name (VList ys) s2)))
         | _ \<Rightarrow> eungdi (M_NotAList var_name) True s1)"

text \<open>
  \<^verbatim>\<open>handle_dict_add\<close>: \<^verbatim>\<open>d[key] = value\<close> stands outside any \<^verbatim>\<open>try\<close>, and it raises
  \<^verbatim>\<open>TypeError\<close> when the key is not hashable.
\<close>

definition handle_dict_add :: "host \<Rightarrow> string \<Rightarrow> src \<Rightarrow> src \<Rightarrow> state \<Rightarrow> outcome \<times> state" where
  "handle_dict_add h var_name key_expr value_expr s =
     (let (d, s1) = get_variable var_name s
      in case d of
           VDict kvs \<Rightarrow>
             (let (k, s2) = evaluate_expression h key_expr s1;
                  (v, s3) = evaluate_expression h value_expr s2
              in case h_dict_insert h kvs k v of
                   None \<Rightarrow> (Raise HostException, s3)
                 | Some kvs' \<Rightarrow>
                     (Normal, eungdi (M_Succeeded (C_DictAdd var_name key_expr value_expr) k) False
                                (assign_variable var_name (VDict kvs') s3)))
         | _ \<Rightarrow> (Normal, eungdi (M_NotADict var_name) True s1))"

text \<open>\<^verbatim>\<open>handle_dict_delete\<close>: the test \<^verbatim>\<open>key in d\<close> stands outside any \<^verbatim>\<open>try\<close> as well.\<close>

definition handle_dict_delete :: "host \<Rightarrow> string \<Rightarrow> src \<Rightarrow> state \<Rightarrow> outcome \<times> state" where
  "handle_dict_delete h var_name key_expr s =
     (let (d, s1) = get_variable var_name s
      in case d of
           VDict kvs \<Rightarrow>
             (let (k, s2) = evaluate_expression h key_expr s1
              in case h_dict_find h kvs k of
                   None \<Rightarrow> (Raise HostException, s2)
                 | Some None \<Rightarrow> (Normal, eungdi (M_KeyMissing var_name k) True s2)
                 | Some (Some i) \<Rightarrow>
                     (Normal, eungdi (M_Succeeded (C_DictDelete var_name key_expr) k) False
                                (assign_variable var_name (VDict (take i kvs @ drop (Suc i) kvs)) s2)))
         | _ \<Rightarrow> (Normal, eungdi (M_NotADict var_name) True s1))"

text \<open>
  \<^verbatim>\<open>handle_reset\<close>: the new stack holds one frame, a shallow copy of the first frame of
  the old stack.
\<close>

definition handle_reset :: "state \<Rightarrow> outcome \<times> state" where
  "handle_reset s =
     (case scopes s of
        [] \<Rightarrow> (Raise IndexError, s)
      | a # as \<Rightarrow>
          (Normal, eungdi M_ResetDone False
             (s\<lparr>scopes := [length (heap s)], heap := heap s @ [frame_at (heap s) a]\<rparr>)))"

fun is_callable :: "val \<Rightarrow> bool" where
  "is_callable (VBuiltin n) = True"
| "is_callable v = False"

definition handle_builtin_list :: "state \<Rightarrow> outcome \<times> state" where
  "handle_builtin_list s =
     (case scopes s of
        [] \<Rightarrow> (Raise IndexError, s)
      | a # as \<Rightarrow>
          (Normal, eungdi (M_BuiltinList (map fst (filter (\<lambda>kv. is_callable (snd kv))
                                                      (frame_at (heap s) a)))) False s))"

text \<open>\<^verbatim>\<open>handle_list_sort\<close>: \<^verbatim>\<open>sorted(lst)\<close> stands outside any \<^verbatim>\<open>try\<close>.\<close>

definition handle_list_sort :: "host \<Rightarrow> string \<Rightarrow> state \<Rightarrow> outcome \<times> state" where
  "handle_list_sort h var_name s =
     (let (lst, s1) = get_variable var_name s
      in case lst of
           VList xs \<Rightarrow>
             (case h_sorted h xs of
                None \<Rightarrow> (Raise HostException, s1)
              | Some ys \<Rightarrow> (Normal, eungdi (M_Sorted var_name) False
                                      (assign_variable var_name (VList ys) s1)))
         | _ \<Rightarrow> (Normal, eungdi (M_NotAList var_name) True s1))"

definition handle_uppercase :: "host \<Rightarrow> string \<Rightarrow> state \<Rightarrow> state" where
  "handle_uppercase h var_name s =
     (let (v, s1) = get_variable var_name s
      in case v of
           VStr t \<Rightarrow> eungdi (M_Uppercased var_name) False
                       (assign_variable var_name (VStr (h_upper h t)) s1)
         | _ \<Rightarrow> eungdi (M_NotAString var_name) True s1)"

definition handle_lowercase :: "host \<Rightarrow> string \<Rightarrow> state \<Rightarrow> state" where
  "handle_lowercase h var_name s =
     (let (v, s1) = get_variable var_name s
      in case v of
           VStr t \<Rightarrow> eungdi (M_Lowercased var_name) False
                       (assign_variable var_name (VStr (h_lower h t)) s1)
         | _ \<Rightarrow> eungdi (M_NotAString var_name) True s1)"

text \<open>
  \<^verbatim>\<open>handle_random_number\<close>: both bounds are evaluated first; the conversions to \<^verbatim>\<open>int\<close>
  and \<^verbatim>\<open>random.randint\<close> are inside the \<^verbatim>\<open>try\<close>.
\<close>

definition handle_random_number :: "host \<Rightarrow> src \<Rightarrow> src \<Rightarrow> state \<Rightarrow> state" where
  "handle_random_number h min_expr max_expr s =
     (let (min_val, s1) = evaluate_expression h min_expr s;
          (max_val, s2) = evaluate_expression h max_expr s1
      in try_sys h (C_RandomNumber min_expr max_expr) (Sys_RandInt min_val max_val) s2)"

definition handle_shuffle_list :: "host \<Rightarrow> string \<Rightarrow> state \<Rightarrow> state" where
  "handle_shuffle_list h var_name s =
     (let (lst, s1) = get_variable var_name s
      in case lst of
           VList xs \<Rightarrow>
             (case h_shuffle h (world s1) xs of
                (ys, w) \<Rightarrow>
                  eungdi (M_Succeeded (C_ShuffleList var_name) VNone) False
                    (assign_variable var_name (VList ys) (s1\<lparr>world := w\<rparr>)))
         | _ \<Rightarrow> eungdi (M_NotAList var_name) True s1)"

text \<open>
  \<^verbatim>\<open>handle_power\<close>, \<^verbatim>\<open>handle_sqrt\<close> and \<^verbatim>\<open>handle_log\<close>: the operands are evaluated, then
  the function of \<^verbatim>\<open>math\<close> is called inside a \<^verbatim>\<open>try\<close>.
\<close>

definition try_math :: "host \<Rightarrow> command \<Rightarrow> mathfn \<Rightarrow> val list \<Rightarrow> state \<Rightarrow> state" where
  "try_math h c f args s =
     (case h_math h f args of
        Some r \<Rightarrow> eungdi (M_Succeeded c r) False s
      | None \<Rightarrow> eungdi (M_Failed c) True s)"

definition handle_power :: "host \<Rightarrow> src \<Rightarrow> src \<Rightarrow> state \<Rightarrow> state" where
  "handle_power h base_expr exp_expr s =
     (let (base, s1) = evaluate_expression h base_expr s;
          (exponent, s2) = evaluate_expression h exp_expr s1
      in try_math h (C_Power base_expr exp_expr) Math_Pow [base, exponent] s2)"

definition handle_sqrt :: "host \<Rightarrow> src \<Rightarrow> state \<Rightarrow> state" where
  "handle_sqrt h value_expr s =
     (let (v, s1) = evaluate_expression h value_expr s
      in try_math h (C_Sqrt value_expr) Math_Sqrt [v] s1)"

definition handle_log :: "host \<Rightarrow> src \<Rightarrow> src \<Rightarrow> state \<Rightarrow> state" where
  "handle_log h value_expr base_expr s =
     (let (v, s1) = evaluate_expression h value_expr s;
          (base, s2) = evaluate_expression h base_expr s1
      in try_math h (C_Log value_expr base_expr) Math_Log [v, base] s2)"

text \<open>
  \<^verbatim>\<open>handle_save_vars\<close>: \<open>user_vars\<close> is the dict the loop over \<^verbatim>\<open>self.scopes[1:]\<close> builds,
  every frame but the first, a later frame overwriting the value of a name.
\<close>

definition user_vars :: "state \<Rightarrow> frame" where
  "user_vars s =
     fold (\<lambda>a acc. fold (\<lambda>kv f. frame_set (fst kv) (snd kv) f) (frame_at (heap s) a) acc)
       (tl (scopes s)) []"

definition handle_save_vars :: "host \<Rightarrow> string \<Rightarrow> state \<Rightarrow> state" where
  "handle_save_vars h filename s =
     try_sys h (C_SaveVars filename) (Sys_SaveVars filename (user_vars s)) s"

text \<open>
  \<^verbatim>\<open>handle_load_vars\<close>: the whole body is inside the \<^verbatim>\<open>try\<close>, also
  \<^verbatim>\<open>self.current_scope()\<close>. What \<^verbatim>\<open>update\<close> has stored before an exception stays.
\<close>

definition handle_load_vars :: "host \<Rightarrow> string \<Rightarrow> state \<Rightarrow> state" where
  "handle_load_vars h filename s =
     (case h_load_vars h (world s) filename of
        ((items, ok), w) \<Rightarrow>
          (let s1 = s\<lparr>world := w\<rparr>
           in if scopes s1 = [] then eungdi (M_Failed (C_LoadVars filename)) True s1
              else
                let a = last (scopes s1);
                    s2 = s1\<lparr>heap := (heap s1)[a := fold (\<lambda>kv f. frame_set (fst kv) (snd kv) f) items
                                                      (frame_at (heap s1) a)]\<rparr>
                in if ok then eungdi (M_Succeeded (C_LoadVars filename) VNone) False s2
                   else eungdi (M_Failed (C_LoadVars filename)) True s2))"

text \<open>
  \<^verbatim>\<open>handle_change_directory\<close>: \<^verbatim>\<open>os.chdir\<close>, then \<^verbatim>\<open>os.getcwd\<close> for the message, both inside
  the \<^verbatim>\<open>try\<close>.
\<close>

definition handle_change_directory :: "host \<Rightarrow> string \<Rightarrow> state \<Rightarrow> state" where
  "handle_change_directory h path s =
     (case sys h (Sys_ChDir path) s of
        (Returns v, s1) \<Rightarrow> try_sys h (C_ChangeDirectory path) Sys_GetCwd s1
      | (Raises x, s1) \<Rightarrow> eungdi (M_Failed (C_ChangeDirectory path)) True s1)"

text \<open>
  The dispatch of \<^verbatim>\<open>interpret_line\<close> to the handler of the matching pattern, one
  equation per entry of the table.
\<close>

primrec run_handler :: "host \<Rightarrow> command \<Rightarrow> state \<Rightarrow> outcome \<times> state" where
  "run_handler h C_Help s = (Normal, eungdi M_Help False s)"
| "run_handler h (C_Print m) s = (Normal, eungdi (M_Text m) False s)"
| "run_handler h (C_Declare x) s = declare_variable x s"
| "run_handler h (C_Assign x e) s = (Normal, handle_assign h x e s)"
| "run_handler h (C_ReadFile p) s = (Normal, handle_readfile h p s)"
| "run_handler h (C_Input p) s = handle_input h p s"
| "run_handler h (C_Output x) s = (Normal, handle_output x s)"
| "run_handler h C_ListVars s = (Normal, handle_list_vars s)"
| "run_handler h (C_DeleteVar x) s = handle_delete_var x s"
| "run_handler h C_State s = (Normal, eungdi (M_State (combined_items s)) False s)"
| "run_handler h C_Version s = (Normal, eungdi M_Version False s)"
| "run_handler h (C_FileWrite p t) s = (Normal, try_sys h (C_FileWrite p t) (Sys_WriteFile p t) s)"
| "run_handler h (C_FileAppend p t) s = (Normal, try_sys h (C_FileAppend p t) (Sys_AppendFile p t) s)"
| "run_handler h C_CurrentTime s = bare_sys h C_CurrentTime Sys_Time s"
| "run_handler h C_CurrentDate s = bare_sys h C_CurrentDate Sys_Date s"
| "run_handler h (C_HttpRequest u) s = (Normal, try_sys h (C_HttpRequest u) (Sys_HttpGet u) s)"
| "run_handler h (C_JsonLoad t) s = handle_json_load h t s"
| "run_handler h (C_JsonDump x) s = (Normal, handle_json_dump h x s)"
| "run_handler h (C_ListAppend x e) s = (Normal, handle_list_append h x e s)"
| "run_handler h (C_ListDelete x e) s = (Normal, handle_list_delete h x e s)"
| "run_handler h (C_DictAdd x k e) s = handle_dict_add h x k e s"
| "run_handler h (C_DictDelete x k) s = handle_dict_delete h x k s"
| "run_handler h C_Reset s = handle_reset s"
| "run_handler h C_BuiltinList s = handle_builtin_list s"
| "run_handler h (C_SystemCommand c) s = (Normal, try_sys h (C_SystemCommand c) (Sys_System c) s)"
| "run_handler h (C_FileDelete p) s = (Normal, try_sys h (C_FileDelete p) (Sys_Remove p) s)"
| "run_handler h (C_FileExists p) s = bare_sys h (C_FileExists p) (Sys_Exists p) s"
| "run_handler h C_ListDirectory s = (Normal, try_sys h C_ListDirectory Sys_ListDir s)"
| "run_handler h (C_ListSort x) s = handle_list_sort h x s"
| "run_handler h (C_Upper x) s = (Normal, handle_uppercase h x s)"
| "run_handler h (C_Lower x) s = (Normal, handle_lowercase h x s)"
| "run_handler h (C_RandomNumber a b) s = (Normal, handle_random_number h a b s)"
| "run_handler h (C_ShuffleList x) s = (Normal, handle_shuffle_list h x s)"
| "run_handler h (C_EnvPrint x) s = bare_sys h (C_EnvPrint x) (Sys_EnvGet x) s"
| "run_handler h (C_EnvSet x v) s = (Normal, try_sys h (C_EnvSet x v) (Sys_EnvSet x v) s)"
| "run_handler h (C_Power a b) s = (Normal, handle_power h a b s)"
| "run_handler h (C_Sqrt a) s = (Normal, handle_sqrt h a s)"
| "run_handler h (C_Log a b) s = (Normal, handle_log h a b s)"
| "run_handler h (C_SaveVars p) s = (Normal, handle_save_vars h p s)"
| "run_handler h (C_LoadVars p) s = (Normal, handle_load_vars h p s)"
| "run_handler h C_Exit s = (Raise SystemExit, eungdi M_Exit False s)"
| "run_handler h (C_SetPrompt p) s =
     (Normal, eungdi (M_PromptSet p) False (s\<lparr>prompt := p @ '' ''\<rparr>))"
| "run_handler h C_AutoComplete s = (Normal, eungdi M_Commands False s)"
| "run_handler h C_ClearScreen s = (Normal, try_sys h C_ClearScreen Sys_Clear s)"
| "run_handler h C_CwdPrint s = (Normal, try_sys h C_CwdPrint Sys_GetCwd s)"
| "run_handler h (C_ChangeDirectory p) s = (Normal, handle_change_directory h p s)"

text \<open>
  \<^verbatim>\<open>interpret_line\<close> on a line that is not blank: a line that no entry of
  \<^verbatim>\<open>single_commands\<close> matches is an unknown command. The table has no entry for the
  words that open, divide or close a block.
\<close>

definition interpret_line :: "host \<Rightarrow> line \<Rightarrow> state \<Rightarrow> outcome \<times> state" where
  "interpret_line h l s =
     (case l of
        L_Blank \<Rightarrow> (Normal, s)
      | L_Cmd c \<Rightarrow> run_handler h c s
      | _ \<Rightarrow> (Normal, eungdi M_UnknownCommand True s))"

subsection \<open>Deep copy of the scope stack\<close>

text \<open>
  \<^verbatim>\<open>copy.deepcopy(self.scopes)\<close>. A dict is copied once: the memo maps the address of a
  frame to the address of its copy, and it is set before the items of the frame are
  copied. Numbers, strings, \<^verbatim>\<open>None\<close> and the built-in callables are returned as they
  are; a list, a tuple and a dict value are copied item by item; a \<^verbatim>\<open>Function\<close> object is
  rebuilt from the deep copy of its fields, so the frames of its closure are copied too.
  The state of a copy is the heap and the memo.
\<close>

type_synonym copy_state = "frame list \<times> (nat \<times> nat) list"

fun thread :: "('st \<Rightarrow> ('a \<times> 'st) option) list \<Rightarrow> 'st \<Rightarrow> ('a list \<times> 'st) option" where
  "thread [] st = Some ([], st)"
| "thread (f # fs) st =
     (case f st of
        None \<Rightarrow> None
      | Some (x, st1) \<Rightarrow>
          (case thread fs st1 of None \<Rightarrow> None | Some (xs, st2) \<Rightarrow> Some (x # xs, st2)))"

text \<open>
  An item of a dict value: \<^verbatim>\<open>y[deepcopy(key, memo)] = deepcopy(value, memo)\<close> copies the
  value first.
\<close>

definition copy_item :: "('st \<Rightarrow> (val \<times> 'st) option) \<times> ('st \<Rightarrow> (val \<times> 'st) option)
    \<Rightarrow> 'st \<Rightarrow> ((val \<times> val) \<times> 'st) option" where
  "copy_item kv st =
     (case snd kv st of
        None \<Rightarrow> None
      | Some (v, st1) \<Rightarrow>
          (case fst kv st1 of None \<Rightarrow> None | Some (k, st2) \<Rightarrow> Some ((k, v), st2)))"

text \<open>The copy of a value; \<open>cf\<close> copies the frames of a closure.\<close>

primrec deepcopy_val :: "(nat list \<Rightarrow> copy_state \<Rightarrow> (nat list \<times> copy_state) option)
    \<Rightarrow> val \<Rightarrow> copy_state \<Rightarrow> (val \<times> copy_state) option" where
  "deepcopy_val cf VNone = (\<lambda>st. Some (VNone, st))"
| "deepcopy_val cf (VBool b) = (\<lambda>st. Some (VBool b, st))"
| "deepcopy_val cf (VInt i) = (\<lambda>st. Some (VInt i, st))"
| "deepcopy_val cf (VStr t) = (\<lambda>st. Some (VStr t, st))"
| "deepcopy_val cf (VAtom a) = (\<lambda>st. Some (VAtom a, st))"
| "deepcopy_val cf (VList vs) =
     (\<lambda>st. case thread (map (deepcopy_val cf) vs) st of
              None \<Rightarrow> None
            | Some (ws, st1) \<Rightarrow> Some (VList ws, st1))"
| "deepcopy_val cf (VTuple vs) =
     (\<lambda>st. case thread (map (deepcopy_val cf) vs) st of
              None \<Rightarrow> None
            | Some (ws, st1) \<Rightarrow> Some (VTuple ws, st1))"
| "deepcopy_val cf (VDict kvs) =
     (\<lambda>st. case thread (map (\<lambda>kv. copy_item kv)
                           (map (map_prod (deepcopy_val cf) (deepcopy_val cf)) kvs)) st of
              None \<Rightarrow> None
            | Some (items, st1) \<Rightarrow> Some (VDict items, st1))"
| "deepcopy_val cf (VFunc ps block cl) =
     (\<lambda>st. case cf cl st of
              None \<Rightarrow> None
            | Some (cl1, st1) \<Rightarrow> Some (VFunc ps block cl1, st1))"
| "deepcopy_val cf (VBuiltin n) = (\<lambda>st. Some (VBuiltin n, st))"

text \<open>
  The copy of a list of frames. The recursion of \<^verbatim>\<open>deepcopy\<close> ends by the memo; here the
  first argument bounds its depth, and \<open>None\<close> is "not finished within the bound".
\<close>

fun deepcopy_frames :: "nat \<Rightarrow> nat list \<Rightarrow> copy_state \<Rightarrow> (nat list \<times> copy_state) option" where
  "deepcopy_frames 0 as st = None"
| "deepcopy_frames (Suc n) [] st = Some ([], st)"
| "deepcopy_frames (Suc n) (a # as) st =
     (case map_of (snd st) a of
        Some b \<Rightarrow>
          (case deepcopy_frames n as st of
             None \<Rightarrow> None
           | Some (bs, st1) \<Rightarrow> Some (b # bs, st1))
      | None \<Rightarrow>
          (let b = length (fst st);
               items = frame_at (fst st) a
           in case thread (map (\<lambda>kv. deepcopy_val (deepcopy_frames n) (snd kv)) items)
                          (fst st @ [[]], (a, b) # snd st) of
                None \<Rightarrow> None
              | Some (vs, st1) \<Rightarrow>
                  (case deepcopy_frames n as ((fst st1)[b := zip (map fst items) vs], snd st1) of
                     None \<Rightarrow> None
                   | Some (bs, st2) \<Rightarrow> Some (b # bs, st2))))"

subsection \<open>Block extraction\<close>

text \<open>
  The scanning loops of \<^verbatim>\<open>process_if\<close>, \<^verbatim>\<open>process_while\<close>, \<^verbatim>\<open>process_for\<close> and
  \<^verbatim>\<open>process_func_def\<close> over the lines after the opening line. Each returns the block
  (for \<open>scan_if\<close> the two blocks) and the lines after the closing line, where execution
  resumes (\<^verbatim>\<open>return i + 1\<close>); when no closing line is found the block is all the
  remaining lines and nothing is left.
\<close>

definition keep :: "line \<Rightarrow> bool \<Rightarrow> line list \<times> line list \<times> line list
    \<Rightarrow> line list \<times> line list \<times> line list" where
  "keep l in_else r =
     (if in_else then (fst r, l # fst (snd r), snd (snd r))
      else (l # fst r, fst (snd r), snd (snd r)))"

fun scan_if :: "line list \<Rightarrow> bool \<Rightarrow> nat \<Rightarrow> line list \<times> line list \<times> line list" where
  "scan_if [] in_else nested_if = ([], [], [])"
| "scan_if (l # ls) in_else nested_if =
     (case l of
        L_If c \<Rightarrow> keep l in_else (scan_if ls in_else (Suc nested_if))
      | L_EndIf \<Rightarrow>
          (if nested_if > 0 then keep l in_else (scan_if ls in_else (nested_if - 1))
           else ([], [], ls))
      | L_Else \<Rightarrow>
          (if nested_if = 0 then scan_if ls True nested_if
           else keep l in_else (scan_if ls in_else nested_if))
      | _ \<Rightarrow> keep l in_else (scan_if ls in_else nested_if))"

fun scan_while :: "line list \<Rightarrow> nat \<Rightarrow> line list \<times> line list" where
  "scan_while [] nested_while = ([], [])"
| "scan_while (l # ls) nested_while =
     (case l of
        L_While c \<Rightarrow> apfst ((#) l) (scan_while ls (Suc nested_while))
      | L_EndWhile \<Rightarrow>
          (if nested_while > 0 then apfst ((#) l) (scan_while ls (nested_while - 1))
           else ([], ls))
      | _ \<Rightarrow> apfst ((#) l) (scan_while ls nested_while))"

text \<open>\<^verbatim>\<open>process_for\<close> has no counter: its loop stops at the first closing line.\<close>

fun scan_for :: "line list \<Rightarrow> line list \<times> line list" where
  "scan_for [] = ([], [])"
| "scan_for (l # ls) =
     (case l of
        L_EndFor \<Rightarrow> ([], ls)
      | _ \<Rightarrow> apfst ((#) l) (scan_for ls))"

fun scan_func :: "line list \<Rightarrow> nat \<Rightarrow> line list \<times> line list" where
  "scan_func [] nested_func = ([], [])"
| "scan_func (l # ls) nested_func =
     (case l of
        L_FuncDef f ps \<Rightarrow> apfst ((#) l) (scan_func ls (Suc nested_func))
      | L_EndFunc \<Rightarrow>
          (if nested_func > 0 then apfst ((#) l) (scan_func ls (nested_func - 1))
           else ([], ls))
      | _ \<Rightarrow> apfst ((#) l) (scan_func ls nested_func))"

subsection \<open>The block executor\<close>

text \<open>
  The result of running lines: \<open>None\<close> when the run does not finish within the bound
  (see \<open>execute_lines\<close>), otherwise how the run left (normally, or by an exception on
  its way up) and the state it left. The methods below take the executor \<open>ex\<close> of the
  interpreter they belong to, as the Python methods take \<^verbatim>\<open>self\<close>.
\<close>

type_synonym result = "(outcome \<times> state) option"

type_synonym executor = "line list \<Rightarrow> state \<Rightarrow> result"

text \<open>Sequencing: what follows runs only after a normal end, in the state it left.\<close>

definition then_continue :: "result \<Rightarrow> (state \<Rightarrow> result) \<Rightarrow> result" where
  "then_continue r k =
     (case r of
        None \<Rightarrow> None
      | Some (Normal, s) \<Rightarrow> k s
      | Some (Raise x, s) \<Rightarrow> Some (Raise x, s))"

text \<open>
  \<^verbatim>\<open>process_if\<close> after the scan: the guard is evaluated first (a failed evaluation
  gives \<^verbatim>\<open>None\<close>, which is false), then \<^verbatim>\<open>push_scope\<close>, the chosen block,
  \<^verbatim>\<open>pop_scope\<close>. There is no \<^verbatim>\<open>try\<close> around the block: an exception leaves at once.
\<close>

definition process_if :: "executor \<Rightarrow> host \<Rightarrow> src \<Rightarrow> line list \<Rightarrow> state \<Rightarrow> result" where
  "process_if ex h condition_expr rest s =
     (let (condition_value, s1) = evaluate_expression h condition_expr s;
          (if_block, else_block, after) = scan_if rest False 0
      in case ex (if truthy h condition_value then if_block else else_block) (push_scope s1) of
           None \<Rightarrow> None
         | Some (Normal, s2) \<Rightarrow> Some (Normal, pop_scope s2)
         | Some (Raise x, s2) \<Rightarrow> Some (Raise x, s2))"

text \<open>
  The loop \<^verbatim>\<open>while self.evaluate_expression(condition_expr)\<close> of \<^verbatim>\<open>process_while\<close>. The
  first number bounds the iterations.
\<close>

fun while_loop :: "executor \<Rightarrow> host \<Rightarrow> nat \<Rightarrow> src \<Rightarrow> line list \<Rightarrow> state \<Rightarrow> result" where
  "while_loop ex h 0 condition_expr block s = None"
| "while_loop ex h (Suc k) condition_expr block s =
     (let (condition_value, s1) = evaluate_expression h condition_expr s
      in if \<not> truthy h condition_value then Some (Normal, s1)
         else (case ex block (push_scope s1) of
                 None \<Rightarrow> None
               | Some (Normal, s2) \<Rightarrow> while_loop ex h k condition_expr block (pop_scope s2)
               | Some (Raise ContinueException, s2) \<Rightarrow>
                   while_loop ex h k condition_expr block (pop_scope s2)
               | Some (Raise BreakException, s2) \<Rightarrow> Some (Normal, pop_scope s2)
               | Some (Raise x, s2) \<Rightarrow> Some (Raise x, s2)))"

text \<open>The loop \<^verbatim>\<open>for item in iterable_value\<close> of \<^verbatim>\<open>process_for\<close>.\<close>

fun for_loop :: "executor \<Rightarrow> string \<Rightarrow> val list \<Rightarrow> line list \<Rightarrow> state \<Rightarrow> result" where
  "for_loop ex iter_var [] block s = Some (Normal, s)"
| "for_loop ex iter_var (item # items) block s =
     (case declare_variable iter_var (push_scope s) of
        (Raise x, s1) \<Rightarrow> Some (Raise x, s1)
      | (Normal, s1) \<Rightarrow>
          (case ex block (assign_variable iter_var item s1) of
             None \<Rightarrow> None
           | Some (Normal, s2) \<Rightarrow> for_loop ex iter_var items block (pop_scope s2)
           | Some (Raise ContinueException, s2) \<Rightarrow> for_loop ex iter_var items block (pop_scope s2)
           | Some (Raise BreakException, s2) \<Rightarrow> Some (Normal, pop_scope s2)
           | Some (Raise x, s2) \<Rightarrow> Some (Raise x, s2)))"

text \<open>
  \<^verbatim>\<open>process_func_def\<close> after the scan: the closure is the deep copy of the stack, taken
  before the name is declared; then \<^verbatim>\<open>declare_variable\<close> and \<^verbatim>\<open>assign_variable\<close>.
\<close>

definition process_func_def :: "nat \<Rightarrow> string \<Rightarrow> string list \<Rightarrow> line list \<Rightarrow> state \<Rightarrow> result" where
  "process_func_def n func_name params block s =
     (case deepcopy_frames n (scopes s) (heap s, []) of
        None \<Rightarrow> None
      | Some (closure, st) \<Rightarrow>
          (case declare_variable func_name (s\<lparr>heap := fst st\<rparr>) of
             (Raise x, s1) \<Rightarrow> Some (Raise x, s1)
           | (Normal, s1) \<Rightarrow>
               Some (Normal, assign_variable func_name (VFunc params block closure) s1)))"

text \<open>
  \<^verbatim>\<open>Function.call\<close>. The parameters are stored in a fresh frame on top of the closure; the
  old stack comes back after the \<^verbatim>\<open>try\<close> statement, which catches \<^verbatim>\<open>ReturnException\<close>
  only. The result holds the returned value too.
\<close>

definition bind_params :: "string list \<Rightarrow> val list \<Rightarrow> frame" where
  "bind_params params args = fold (\<lambda>pa f. frame_set (fst pa) (snd pa) f) (zip params args) []"

definition call_end :: "val \<Rightarrow> nat list \<Rightarrow> state \<Rightarrow> (outcome \<times> val \<times> state) option" where
  "call_end ret_value old_scopes s =
     (let s1 = s\<lparr>scopes := old_scopes\<rparr>
      in Some (Normal, ret_value, if debug s1 then eungdi (M_CallEnd ret_value) False s1 else s1))"

text \<open>The state in which the body starts: lines 178 to 183 of the source.\<close>

definition enter_call :: "string list \<Rightarrow> nat list \<Rightarrow> val list \<Rightarrow> state \<Rightarrow> state" where
  "enter_call params closure args s =
     (let s1 = (if debug s then eungdi (M_CallStart args) False s else s)
      in s1\<lparr>scopes := closure @ [length (heap s1)],
             heap := heap s1 @ [bind_params params args]\<rparr>)"

definition call :: "executor \<Rightarrow> string list \<Rightarrow> line list \<Rightarrow> nat list \<Rightarrow> val list \<Rightarrow> state
    \<Rightarrow> (outcome \<times> val \<times> state) option" where
  "call ex params block closure args s =
     (if length args \<noteq> length params
      then Some (Normal, VNone, eungdi (M_ArityMismatch (length params) (length args)) True s)
      else
        let old_scopes = scopes s
        in case ex block (enter_call params closure args s) of
             None \<Rightarrow> None
           | Some (Normal, s3) \<Rightarrow> call_end VNone old_scopes s3
           | Some (Raise (ReturnException v), s3) \<Rightarrow> call_end v old_scopes s3
           | Some (Raise x, s3) \<Rightarrow> Some (Raise x, VNone, s3))"

fun evaluate_args :: "host \<Rightarrow> src list \<Rightarrow> state \<Rightarrow> val list \<times> state" where
  "evaluate_args h [] s = ([], s)"
| "evaluate_args h (e # es) s =
     (let (v, s1) = evaluate_expression h e s;
          (vs, s2) = evaluate_args h es s1
      in (v # vs, s2))"

definition process_func_call :: "executor \<Rightarrow> host \<Rightarrow> string \<Rightarrow> src list \<Rightarrow> state \<Rightarrow> result" where
  "process_func_call ex h func_name args_expr s =
     (let (args_values, s1) = evaluate_args h args_expr s;
          (func_obj, s2) = get_variable func_name s1
      in case func_obj of
           VFunc params block closure \<Rightarrow>
             (case call ex params block closure args_values s2 of
                None \<Rightarrow> None
              | Some (r, ret_value, s3) \<Rightarrow> Some (r, s3))
         | _ \<Rightarrow> Some (Normal, eungdi (M_NotAFunction func_name) True s2))"

definition process_return :: "host \<Rightarrow> src option \<Rightarrow> state \<Rightarrow> result" where
  "process_return h expression s =
     (case expression of
        None \<Rightarrow> Some (Raise (ReturnException VNone), s)
      | Some e \<Rightarrow>
          (let (ret_val, s1) = evaluate_expression h e s
           in Some (Raise (ReturnException ret_val), s1)))"

text \<open>
  \<^verbatim>\<open>execute_lines\<close>, on the lines from the current index on. A \<^verbatim>\<open>while\<close> loop of the
  program need not end, so the second argument bounds the run: the depth of nested
  blocks and calls, the number of lines of one block, and the iterations of one
  \<^verbatim>\<open>while\<close> loop. \<open>None\<close> is "not finished within the bound"; a run that finishes
  within a bound gives the result of the Python run.
\<close>

fun execute_lines :: "host \<Rightarrow> nat \<Rightarrow> line list \<Rightarrow> state \<Rightarrow> result" where
  "execute_lines h 0 lines s = None"
| "execute_lines h (Suc n) [] s = Some (Normal, s)"
| "execute_lines h (Suc n) (l # rest) s =
     (case l of
        L_Blank \<Rightarrow> execute_lines h n rest s
      | L_If c \<Rightarrow>
          then_continue (process_if (execute_lines h n) h c rest s)
            (execute_lines h n (snd (snd (scan_if rest False 0))))
      | L_While c \<Rightarrow>
          then_continue (while_loop (execute_lines h n) h n c (fst (scan_while rest 0)) s)
            (execute_lines h n (snd (scan_while rest 0)))
      | L_For x e \<Rightarrow>
          (let (iterable_value, s1) = evaluate_expression h e s
           in case iter_items h iterable_value of
                NotIterable \<Rightarrow> execute_lines h n rest (eungdi M_NotIterable True s1)
              | Items items \<Rightarrow>
                  then_continue (for_loop (execute_lines h n) x items (fst (scan_for rest)) s1)
                    (execute_lines h n (snd (scan_for rest)))
              | IterationRaises \<Rightarrow> Some (Raise HostException, s1))
      | L_FuncDef f ps \<Rightarrow>
          then_continue (process_func_def n f ps (fst (scan_func rest 0)) s)
            (execute_lines h n (snd (scan_func rest 0)))
      | L_FuncCall f args \<Rightarrow>
          then_continue (process_func_call (execute_lines h n) h f args s)
            (execute_lines h n rest)
      | L_Break \<Rightarrow> Some (Raise BreakException, s)
      | L_Continue \<Rightarrow> Some (Raise ContinueException, s)
      | L_Return e \<Rightarrow> process_return h e s
      | _ \<Rightarrow>
          (case interpret_line h l s of
             (Normal, s1) \<Rightarrow> execute_lines h n rest s1
           | (Raise x, s1) \<Rightarrow> Some (Raise x, s1)))"

text \<open>
  \<^verbatim>\<open>interpret_program\<close>: \<^verbatim>\<open>except Exception\<close> around the whole run writes the exception
  as an error; \<^verbatim>\<open>SystemExit\<close> is not an \<^verbatim>\<open>Exception\<close> and ends the process.
\<close>

datatype ending = Finished | Exited

definition interpret_program :: "host \<Rightarrow> nat \<Rightarrow> line list \<Rightarrow> state \<Rightarrow> (ending \<times> state) option" where
  "interpret_program h n program s =
     (case execute_lines h n program s of
        None \<Rightarrow> None
      | Some (Normal, s1) \<Rightarrow> Some (Finished, s1)
      | Some (Raise SystemExit, s1) \<Rightarrow> Some (Exited, s1)
      | Some (Raise x, s1) \<Rightarrow> Some (Finished, eungdi (M_RuntimeError x) True s1))"

subsection \<open>The interpreter at construction\<close>

text \<open>
  The first frame as \<^verbatim>\<open>Interpreter.__init__\<close> fills it. The last four names are Korean
  words in the source; they are spelled here by their UTF-8 bytes.
\<close>

definition builtins_frame :: frame where
  "builtins_frame =
     [(''sqrt'', VBuiltin ''math.sqrt''), (''sin'', VBuiltin ''math.sin''),
      (''cos'', VBuiltin ''math.cos''), (''tan'', VBuiltin ''math.tan''),
      (''max'', VBuiltin ''max''), (''min'', VBuiltin ''min''),
      (''abs'', VBuiltin ''abs''), (''round'', VBuiltin ''round''),
      (''int'', VBuiltin ''int''), (''str'', VBuiltin ''str''),
      (''len'', VBuiltin ''len''), (''log'', VBuiltin ''math.log''),
      (''exp'', VBuiltin ''math.exp''),
      ([CHR 0xED, CHR 0x98, CHR 0x84, CHR 0xEC, CHR 0x9E, CHR 0xAC, CHR 0xEC, CHR 0x8B,
        CHR 0x9C, CHR 0xEA, CHR 0xB0, CHR 0x84], VBuiltin ''lambda_time''),
      ([CHR 0xED, CHR 0x98, CHR 0x84, CHR 0xEC, CHR 0x9E, CHR 0xAC, CHR 0xEB, CHR 0x82,
        CHR 0xA0, CHR 0xEC, CHR 0xA7, CHR 0x9C], VBuiltin ''lambda_date''),
      ([CHR 0x4A, CHR 0x53, CHR 0x4F, CHR 0x4E, CHR 0xEB, CHR 0xB3, CHR 0x80, CHR 0xED,
        CHR 0x99, CHR 0x98], VBuiltin ''json.loads''),
      ([CHR 0x4A, CHR 0x53, CHR 0x4F, CHR 0x4E, CHR 0xEB, CHR 0xAC, CHR 0xB8, CHR 0xEC,
        CHR 0x9E, CHR 0x90, CHR 0xEC, CHR 0x97, CHR 0xB4, CHR 0xED, CHR 0x99, CHR 0x94],
       VBuiltin ''json.dumps'')]"

definition init_state :: "bool \<Rightarrow> bool \<Rightarrow> state" where
  "init_state dbg fst_mode =
     \<lparr>scopes = [0], heap = [builtins_frame], logged = [], debug = dbg, fast = fst_mode,
      prompt = ''>> '', input_buffer = [], world = World 0\<rparr>"

text \<open>
  A host for the closed examples: integer arithmetic and integer comparison as CPython
  computes them, indexing of a list by a natural number, and dicts whose keys are
  compared as they are written; a list or a dict, or a tuple that holds one, is not
  hashable. Every call to the outside fails in this host, and so does every other
  application.
\<close>

fun int_of :: "val \<Rightarrow> int option" where
  "int_of (VInt a) = Some a"
| "int_of v = None"

definition core_binop :: "binop \<Rightarrow> val \<Rightarrow> val \<Rightarrow> val option" where
  "core_binop b x y =
     (case int_of x of None \<Rightarrow> None | Some a \<Rightarrow>
      (case int_of y of None \<Rightarrow> None | Some c \<Rightarrow>
       (case b of
          B_Add \<Rightarrow> Some (VInt (a + c))
        | B_Sub \<Rightarrow> Some (VInt (a - c))
        | B_Mult \<Rightarrow> Some (VInt (a * c))
        | B_Mod \<Rightarrow> (if c = 0 then None else Some (VInt (a mod c)))
        | _ \<Rightarrow> None)))"

definition core_unop :: "unop \<Rightarrow> val \<Rightarrow> val option" where
  "core_unop u x =
     (case int_of x of None \<Rightarrow> None | Some a \<Rightarrow>
      (case u of U_UAdd \<Rightarrow> Some (VInt a) | U_USub \<Rightarrow> Some (VInt (- a)) | _ \<Rightarrow> None))"

definition core_compare :: "cmpop \<Rightarrow> val \<Rightarrow> val \<Rightarrow> bool option" where
  "core_compare c x y =
     (case int_of x of None \<Rightarrow> None | Some a \<Rightarrow>
      (case int_of y of None \<Rightarrow> None | Some b \<Rightarrow>
       (case c of
          C_Eq \<Rightarrow> Some (a = b)
        | C_NotEq \<Rightarrow> Some (a \<noteq> b)
        | C_Lt \<Rightarrow> Some (a < b)
        | C_LtE \<Rightarrow> Some (a \<le> b)
        | C_Gt \<Rightarrow> Some (a > b)
        | C_GtE \<Rightarrow> Some (a \<ge> b)
        | _ \<Rightarrow> None)))"

definition core_getitem :: "val \<Rightarrow> val \<Rightarrow> val option" where
  "core_getitem x y =
     (case x of
        VList xs \<Rightarrow>
          (case int_of y of
             None \<Rightarrow> None
           | Some i \<Rightarrow> if 0 \<le> i \<and> nat i < length xs then Some (xs ! nat i) else None)
      | _ \<Rightarrow> None)"

primrec hashable :: "val \<Rightarrow> bool" where
  "hashable VNone = True"
| "hashable (VBool b) = True"
| "hashable (VInt i) = True"
| "hashable (VStr t) = True"
| "hashable (VAtom a) = True"
| "hashable (VList vs) = False"
| "hashable (VTuple vs) = list_all id (map hashable vs)"
| "hashable (VDict kvs) = False"
| "hashable (VFunc ps block cl) = True"
| "hashable (VBuiltin n) = True"

fun dict_set :: "val \<Rightarrow> val \<Rightarrow> (val \<times> val) list \<Rightarrow> (val \<times> val) list" where
  "dict_set k v [] = [(k, v)]"
| "dict_set k v ((k', v') # d) = (if k' = k then (k', v) # d else (k', v') # dict_set k v d)"

fun dict_index :: "val \<Rightarrow> (val \<times> val) list \<Rightarrow> nat option" where
  "dict_index k [] = None"
| "dict_index k ((k', v') # d) = (if k' = k then Some 0 else map_option Suc (dict_index k d))"

definition core_dict_insert :: "(val \<times> val) list \<Rightarrow> val \<Rightarrow> val \<Rightarrow> (val \<times> val) list option" where
  "core_dict_insert d k v = (if hashable k then Some (dict_set k v d) else None)"

definition core_dict_find :: "(val \<times> val) list \<Rightarrow> val \<Rightarrow> nat option option" where
  "core_dict_find d k = (if hashable k then Some (dict_index k d) else None)"

definition core_host :: host where
  "core_host =
     \<lparr>h_binop = core_binop, h_unop = core_unop, h_compare = core_compare,
      h_getitem = core_getitem, h_dict_insert = core_dict_insert,
      h_atom_truthy = (\<lambda>a. True), h_atom_iter = (\<lambda>a. None),
      h_sorted = (\<lambda>xs. None), h_upper = (\<lambda>t. t), h_lower = (\<lambda>t. t),
      h_json_ok = (\<lambda>v. False), h_int = int_of, h_dict_find = core_dict_find,
      h_math = (\<lambda>f vs. None), h_strip = (\<lambda>t. t), h_unescape = (\<lambda>t. None),
      h_json_loads = (\<lambda>t. Raises JSONDecodeError), h_re_sub_keys = (\<lambda>t. t),
      h_sys = (\<lambda>w c. (Raises OtherError, w)), h_shuffle = (\<lambda>w xs. (xs, w)),
      h_load_vars = (\<lambda>w p. (([], False), w))\<rparr>"

section \<open>Notions the statements use\<close>

text \<open>Every operand of the list evaluates without an exception to a true value.\<close>

definition all_truthy :: "host \<Rightarrow> (string \<Rightarrow> val option) \<Rightarrow> expr list \<Rightarrow> bool" where
  "all_truthy h vars es =
     list_all (\<lambda>e. case eval_node h vars e of Inl err \<Rightarrow> False | Inr v \<Rightarrow> truthy h v) es"

text \<open>Every operand of the list evaluates without an exception to a false value.\<close>

definition all_falsy :: "host \<Rightarrow> (string \<Rightarrow> val option) \<Rightarrow> expr list \<Rightarrow> bool" where
  "all_falsy h vars es =
     list_all (\<lambda>e. case eval_node h vars e of Inl err \<Rightarrow> False | Inr v \<Rightarrow> \<not> truthy h v) es"

text \<open>
  The expression has an operator outside the tables, an attribute access, a call or
  another unsupported node kind somewhere.
\<close>

primrec contains_unsafe :: "expr \<Rightarrow> bool" where
  "contains_unsafe (E_Constant c) = False"
| "contains_unsafe (E_BinOp l b r) =
     (contains_unsafe l \<or> contains_unsafe r \<or> \<not> allowed_operators b)"
| "contains_unsafe (E_UnaryOp u e) = (contains_unsafe e \<or> \<not> allowed_unary_operators u)"
| "contains_unsafe (E_BoolOp b es) = list_ex id (map contains_unsafe es)"
| "contains_unsafe (E_Compare l rest) =
     (contains_unsafe l \<or>
      list_ex (\<lambda>cx. snd cx \<or> \<not> allowed_compare_ops (fst cx))
        (map (map_prod id contains_unsafe) rest))"
| "contains_unsafe (E_List es) = list_ex id (map contains_unsafe es)"
| "contains_unsafe (E_Tuple es) = list_ex id (map contains_unsafe es)"
| "contains_unsafe (E_Dict kvs) =
     list_ex (\<lambda>kv. (case fst kv of None \<Rightarrow> True | Some k \<Rightarrow> k) \<or> snd kv)
       (map (map_prod (map_option contains_unsafe) contains_unsafe) kvs)"
| "contains_unsafe (E_Subscript c i) = (contains_unsafe c \<or> contains_unsafe i)"
| "contains_unsafe (E_Name x) = False"
| "contains_unsafe (E_Attribute e a) = True"
| "contains_unsafe (E_Call f args) = True"
| "contains_unsafe E_Other = True"

text \<open>
  The same, outside the operands that short-circuit evaluation skips. An operand of
  \<^verbatim>\<open>and\<close> is skipped when an operand before it evaluates to a false value, an operand
  of \<^verbatim>\<open>or\<close> when an operand before it evaluates to a true value, and a link of a
  comparison chain when a link before it compares to \<^verbatim>\<open>False\<close>. Nothing else is
  skipped: the operands of an arithmetic operator, the elements of a list, a tuple or a
  dict and both parts of a subscript are all evaluated.

  The scanners below take, for every operand, whether it has such a place
  and what it evaluates to.
\<close>

fun reach_and :: "host \<Rightarrow> (bool \<times> (eval_error + val)) list \<Rightarrow> bool" where
  "reach_and h [] = False"
| "reach_and h ((r, res) # rest) =
     (r \<or> ((case res of Inl err \<Rightarrow> True | Inr v \<Rightarrow> truthy h v) \<and> reach_and h rest))"

fun reach_or :: "host \<Rightarrow> (bool \<times> (eval_error + val)) list \<Rightarrow> bool" where
  "reach_or h [] = False"
| "reach_or h ((r, res) # rest) =
     (r \<or> ((case res of Inl err \<Rightarrow> True | Inr v \<Rightarrow> \<not> truthy h v) \<and> reach_or h rest))"

text \<open>The link \<open>left c res\<close> is evaluated and compares to \<^verbatim>\<open>False\<close>.\<close>

definition link_false :: "host \<Rightarrow> cmpop \<Rightarrow> eval_error + val \<Rightarrow> eval_error + val \<Rightarrow> bool" where
  "link_false h c left res =
     (case left of
        Inl err \<Rightarrow> False
      | Inr lv \<Rightarrow>
          (case res of
             Inl err \<Rightarrow> False
           | Inr cv \<Rightarrow> allowed_compare_ops c \<and> h_compare h c lv cv = Some False))"

fun reach_chain :: "host \<Rightarrow> eval_error + val \<Rightarrow> (cmpop \<times> bool \<times> (eval_error + val)) list \<Rightarrow> bool" where
  "reach_chain h left [] = False"
| "reach_chain h left ((c, r, res) # rest) =
     (r \<or> \<not> allowed_compare_ops c \<or> (\<not> link_false h c left res \<and> reach_chain h res rest))"

primrec reaches_unsafe :: "host \<Rightarrow> (string \<Rightarrow> val option) \<Rightarrow> expr \<Rightarrow> bool" where
  "reaches_unsafe h vars (E_Constant c) = False"
| "reaches_unsafe h vars (E_BinOp l b r) =
     (reaches_unsafe h vars l \<or> reaches_unsafe h vars r \<or> \<not> allowed_operators b)"
| "reaches_unsafe h vars (E_UnaryOp u e) =
     (reaches_unsafe h vars e \<or> \<not> allowed_unary_operators u)"
| "reaches_unsafe h vars (E_BoolOp b es) =
     (case b of
        B_And \<Rightarrow> reach_and h (zip (map (reaches_unsafe h vars) es) (map (eval_node h vars) es))
      | B_Or \<Rightarrow> reach_or h (zip (map (reaches_unsafe h vars) es) (map (eval_node h vars) es)))"
| "reaches_unsafe h vars (E_Compare l rest) =
     (reaches_unsafe h vars l \<or>
      reach_chain h (eval_node h vars l)
        (zip (map fst rest)
           (zip (map snd (map (map_prod id (reaches_unsafe h vars)) rest))
                (map (\<lambda>cx. eval_node h vars (snd cx)) rest))))"
| "reaches_unsafe h vars (E_List es) = list_ex id (map (reaches_unsafe h vars) es)"
| "reaches_unsafe h vars (E_Tuple es) = list_ex id (map (reaches_unsafe h vars) es)"
| "reaches_unsafe h vars (E_Dict kvs) =
     list_ex (\<lambda>kv. (case fst kv of None \<Rightarrow> True | Some k \<Rightarrow> k) \<or> snd kv)
       (map (map_prod (map_option (reaches_unsafe h vars)) (reaches_unsafe h vars)) kvs)"
| "reaches_unsafe h vars (E_Subscript c i) = (reaches_unsafe h vars c \<or> reaches_unsafe h vars i)"
| "reaches_unsafe h vars (E_Name x) = False"
| "reaches_unsafe h vars (E_Attribute e a) = True"
| "reaches_unsafe h vars (E_Call f args) = True"
| "reaches_unsafe h vars E_Other = True"




subsection \<open>Programs of the examples\<close>

text \<open>
  \<^verbatim>\<open>while True: if True: break\<close> in the language's words: a loop whose body leaves by a
  \<^verbatim>\<open>break\<close> inside a conditional, as the loop of the repository's own test program does.
\<close>

definition leak_program :: "line list" where
  "leak_program =
     [L_While (Some (E_Constant (K_Bool True))),
        L_If (Some (E_Constant (K_Bool True))),
          L_Break,
        L_EndIf,
      L_EndWhile]"

text \<open>A function whose body is a \<^verbatim>\<open>break\<close>, called from the body of a loop.\<close>

definition escape_program :: "line list" where
  "escape_program =
     [L_FuncDef ''f'' [],
        L_Break,
      L_EndFunc,
      L_While (Some (E_Constant (K_Bool True))),
        L_FuncCall ''f'' [],
        L_Cmd (C_Print ''unreached''),
      L_EndWhile,
      L_Cmd (C_Print ''after'')]"

text \<open>
  Two nested for-loops: \<^verbatim>\<open>for i in [1, 2]\<close> around \<^verbatim>\<open>for j in [10]\<close>; the inner body
  writes \<open>j\<close>, and the outer body writes \<open>i\<close> after the inner loop.
\<close>

definition nested_for_program :: "line list" where
  "nested_for_program =
     [L_For ''i'' (Some (E_List [E_Constant (K_Int 1), E_Constant (K_Int 2)])),
        L_For ''j'' (Some (E_List [E_Constant (K_Int 10)])),
          L_Cmd (C_Output ''j''),
        L_EndFor,
        L_Cmd (C_Output ''i''),
      L_EndFor]"





text \<open>A declaration at the top level, and a declaration followed by the reset command.\<close>

definition first_frame_program :: "line list" where
  "first_frame_program = [L_Cmd (C_Declare ''x'')]"

definition reset_program :: "line list" where
  "reset_program =
     [L_Cmd (C_Declare ''x''),
      L_Cmd (C_Assign ''x'' (Some (E_Constant (K_Int 1)))),
      L_Cmd C_Reset,
      L_Cmd (C_Output ''x'')]"

subsection \<open>Closures and copies\<close>

text \<open>A value that holds no \<^verbatim>\<open>Function\<close> object, at any depth.\<close>

primrec func_free :: "val \<Rightarrow> bool" where
  "func_free VNone = True"
| "func_free (VBool b) = True"
| "func_free (VInt i) = True"
| "func_free (VStr t) = True"
| "func_free (VAtom a) = True"
| "func_free (VList vs) = list_all id (map func_free vs)"
| "func_free (VTuple vs) = list_all id (map func_free vs)"
| "func_free (VDict kvs) = list_all (\<lambda>kv. fst kv \<and> snd kv) (map (map_prod func_free func_free) kvs)"
| "func_free (VFunc ps block cl) = False"
| "func_free (VBuiltin n) = True"

text \<open>
  The addresses of the closure frames of the \<^verbatim>\<open>Function\<close> objects the value holds, and
  the value with each of these addresses replaced by its image under \<open>\<sigma>\<close>.
\<close>

primrec closure_addrs :: "val \<Rightarrow> nat list" where
  "closure_addrs VNone = []"
| "closure_addrs (VBool b) = []"
| "closure_addrs (VInt i) = []"
| "closure_addrs (VStr t) = []"
| "closure_addrs (VAtom a) = []"
| "closure_addrs (VList vs) = concat (map closure_addrs vs)"
| "closure_addrs (VTuple vs) = concat (map closure_addrs vs)"
| "closure_addrs (VDict kvs) =
     concat (map (\<lambda>kv. fst kv @ snd kv) (map (map_prod closure_addrs closure_addrs) kvs))"
| "closure_addrs (VFunc ps block cl) = cl"
| "closure_addrs (VBuiltin n) = []"

primrec rename :: "(nat \<Rightarrow> nat) \<Rightarrow> val \<Rightarrow> val" where
  "rename \<sigma> VNone = VNone"
| "rename \<sigma> (VBool b) = VBool b"
| "rename \<sigma> (VInt i) = VInt i"
| "rename \<sigma> (VStr t) = VStr t"
| "rename \<sigma> (VAtom a) = VAtom a"
| "rename \<sigma> (VList vs) = VList (map (rename \<sigma>) vs)"
| "rename \<sigma> (VTuple vs) = VTuple (map (rename \<sigma>) vs)"
| "rename \<sigma> (VDict kvs) = VDict (map (map_prod (rename \<sigma>) (rename \<sigma>)) kvs)"
| "rename \<sigma> (VFunc ps block cl) = VFunc ps block (map \<sigma> cl)"
| "rename \<sigma> (VBuiltin n) = VBuiltin n"

text \<open>Every closure address inside the value is below \<open>K\<close>.\<close>

definition closed_val :: "nat \<Rightarrow> val \<Rightarrow> bool" where
  "closed_val K v = list_all (\<lambda>a. a < K) (closure_addrs v)"

text \<open>
  A heap whose values refer to frames of the heap only, and an interpreter state whose
  stack is not empty and refers to frames of its heap only. Every state the
  interpreter reaches is of this kind: Python has no dangling references.
\<close>

definition closed_heap :: "frame list \<Rightarrow> bool" where
  "closed_heap hp = list_all (\<lambda>f. list_all (\<lambda>kv. closed_val (length hp) (snd kv)) f) hp"

definition wf_state :: "state \<Rightarrow> bool" where
  "wf_state s = (scopes s \<noteq> [] \<and> list_all (\<lambda>a. a < length (heap s)) (scopes s) \<and> closed_heap (heap s))"

text \<open>
  The memo of a copy read as a function on addresses, and the values all of whose
  closure addresses the memo has.
\<close>

definition memo_fun :: "(nat \<times> nat) list \<Rightarrow> nat \<Rightarrow> nat" where
  "memo_fun m a = (case map_of m a of None \<Rightarrow> a | Some b \<Rightarrow> b)"

definition covered :: "(nat \<times> nat) list \<Rightarrow> val \<Rightarrow> bool" where
  "covered m v = list_all (\<lambda>a. map_of m a \<noteq> None) (closure_addrs v)"

text \<open>
  \<open>snapshot hp hp' m roots\<close>: the heap \<open>hp'\<close> holds a deep copy of everything the frames
  \<open>roots\<close> of \<open>hp\<close> reach, and \<open>m\<close> pairs every frame with its copy. Every root has a copy.
  No frame has two copies and no two frames share one. The copy of a frame of \<open>hp\<close> is
  a frame that \<open>hp\<close> does not have; it holds the same names in the same order, each with
  the value of the original in which every closure frame is replaced by its copy; and
  every closure frame its values refer to has a copy too.
\<close>

definition snapshot :: "frame list \<Rightarrow> frame list \<Rightarrow> (nat \<times> nat) list \<Rightarrow> nat list \<Rightarrow> bool" where
  "snapshot hp hp' m roots =
     (list_all (\<lambda>a. map_of m a \<noteq> None) roots
      \<and> distinct (map fst m) \<and> distinct (map snd m)
      \<and> list_all (\<lambda>ab. fst ab < length hp \<and> length hp \<le> snd ab \<and> snd ab < length hp'
                       \<and> frame_at hp' (snd ab)
                           = map (apsnd (rename (memo_fun m))) (frame_at hp (fst ab))
                       \<and> list_all (\<lambda>kv. covered m (snd kv)) (frame_at hp (fst ab))) m)"

text \<open>
  The bound that is enough for the copy of the stack of a state: the longest closure
  of a function object in the heap, and with it one round per frame of the heap.
\<close>

primrec max_closure :: "val \<Rightarrow> nat" where
  "max_closure VNone = 0"
| "max_closure (VBool b) = 0"
| "max_closure (VInt i) = 0"
| "max_closure (VStr t) = 0"
| "max_closure (VAtom a) = 0"
| "max_closure (VList vs) = foldr max (map max_closure vs) 0"
| "max_closure (VTuple vs) = foldr max (map max_closure vs) 0"
| "max_closure (VDict kvs) =
     foldr max (map (\<lambda>kv. max (fst kv) (snd kv)) (map (map_prod max_closure max_closure) kvs)) 0"
| "max_closure (VFunc ps block cl) = length cl"
| "max_closure (VBuiltin n) = 0"

definition closure_bound :: "frame list \<Rightarrow> nat" where
  "closure_bound hp =
     foldr max (map (\<lambda>f. foldr max (map (\<lambda>kv. max_closure (snd kv)) f) 0) hp) 0"

definition copy_fuel :: "state \<Rightarrow> nat" where
  "copy_fuel s = length (scopes s) + 1 + length (heap s) * (closure_bound (heap s) + 1)"

text \<open>
  For the proof that the deep copy is a copy: \<open>grows hp hp'\<close> says that \<open>hp'\<close> is \<open>hp\<close>
  with frames added; \<open>finished hp0 st ab\<close> that in the copy state \<open>st\<close> the second frame
  of the pair is the finished copy of the first, a frame of the heap \<open>hp0\<close> the copy
  started from; \<open>post\<close> is what one step of the copy guarantees (old frames untouched,
  every pair it adds to the memo new and finished); \<open>frames_spec\<close> is that guarantee
  for a function that copies lists of frames. \<open>unvisited\<close> counts the frames of \<open>hp0\<close>
  the memo does not have yet.
\<close>

definition grows :: "frame list \<Rightarrow> frame list \<Rightarrow> bool" where
  "grows hp hp' = (length hp \<le> length hp' \<and> take (length hp) hp' = hp)"

definition finished :: "frame list \<Rightarrow> copy_state \<Rightarrow> nat \<times> nat \<Rightarrow> bool" where
  "finished hp0 st ab =
     (frame_at (fst st) (snd ab) = map (apsnd (rename (memo_fun (snd st)))) (frame_at hp0 (fst ab))
      \<and> list_all (\<lambda>kv. covered (snd st) (snd kv)) (frame_at hp0 (fst ab)))"

definition post :: "frame list \<Rightarrow> copy_state \<Rightarrow> copy_state \<Rightarrow> bool" where
  "post hp0 st st' =
     (grows (fst st) (fst st') \<and>
      (\<exists>new. snd st' = new @ snd st \<and> distinct (map fst new) \<and> distinct (map snd new) \<and>
         (\<forall>ab\<in>set new. map_of (snd st) (fst ab) = None \<and> fst ab < length hp0 \<and>
            length (fst st) \<le> snd ab \<and> snd ab < length (fst st') \<and> finished hp0 st' ab)))"

definition frames_spec :: "frame list \<Rightarrow> (nat list \<Rightarrow> copy_state \<Rightarrow> (nat list \<times> copy_state) option) \<Rightarrow> bool" where
  "frames_spec hp0 cf =
     (\<forall>as st bs st'. cf as st = Some (bs, st') \<longrightarrow> grows hp0 (fst st) \<longrightarrow>
        list_all (\<lambda>a. a < length hp0) as \<longrightarrow>
        post hp0 st st' \<and> list_all2 (\<lambda>a b. map_of (snd st') a = Some b) as bs)"

definition unvisited :: "frame list \<Rightarrow> copy_state \<Rightarrow> nat" where
  "unvisited hp0 st = length (filter (\<lambda>a. map_of (snd st) a = None) [0..<length hp0])"

text \<open>
  Scenario F of the specification: \<open>x\<close> is declared and set to 1, \<open>f\<close> is defined with
  a body that writes \<open>x\<close>, \<open>x\<close> is set to 2, \<open>f\<close> is called; a last line writes \<open>x\<close> from
  the top level. \<open>state_x1\<close> is the state after the first two lines, \<open>state_x1_f\<close>
  the state after the definition.
\<close>

definition snapshot_program :: "line list" where
  "snapshot_program =
     [L_Cmd (C_Declare ''x''),
      L_Cmd (C_Assign ''x'' (Some (E_Constant (K_Int 1)))),
      L_FuncDef ''f'' [],
        L_Cmd (C_Output ''x''),
      L_EndFunc,
      L_Cmd (C_Assign ''x'' (Some (E_Constant (K_Int 2)))),
      L_FuncCall ''f'' [],
      L_Cmd (C_Output ''x'')]"

definition state_x1 :: state where
  "state_x1 = (init_state False False)\<lparr>heap := [builtins_frame @ [(''x'', VInt 1)]]\<rparr>"

definition state_x1_f :: state where
  "state_x1_f = (init_state False False)
     \<lparr>heap := [builtins_frame @ [(''x'', VInt 1), (''f'', VFunc [] [L_Cmd (C_Output ''x'')] [1])],
               builtins_frame @ [(''x'', VInt 1)]]\<rparr>"

text \<open>
  A function \<open>g\<close> that writes \<open>x\<close> and then adds 1 to it, and a function \<open>f\<close>, defined
  after \<open>g\<close>, that calls \<open>g\<close>. The variable \<open>x\<close> that \<open>g\<close> changes is the one of its own
  closure. The program calls \<open>g\<close> twice, then \<open>f\<close> twice, then writes \<open>x\<close> from the top
  level. \<open>state_g\<close> is the state after the definition of \<open>g\<close>.
\<close>

definition counter_body :: "line list" where
  "counter_body =
     [L_Cmd (C_Output ''x''),
      L_Cmd (C_Assign ''x'' (Some (E_BinOp (E_Name ''x'') B_Add (E_Constant (K_Int 1)))))]"

definition deep_program :: "line list" where
  "deep_program =
     [L_Cmd (C_Declare ''x''),
      L_Cmd (C_Assign ''x'' (Some (E_Constant (K_Int 1)))),
      L_FuncDef ''g'' []] @ counter_body @
     [L_EndFunc,
      L_FuncDef ''f'' [],
        L_FuncCall ''g'' [],
      L_EndFunc,
      L_FuncCall ''g'' [],
      L_FuncCall ''g'' [],
      L_FuncCall ''f'' [],
      L_FuncCall ''f'' [],
      L_Cmd (C_Output ''x'')]"

definition state_g :: state where
  "state_g = (init_state False False)
     \<lparr>heap := [builtins_frame @ [(''x'', VInt 1), (''g'', VFunc [] counter_body [1])],
               builtins_frame @ [(''x'', VInt 1)]]\<rparr>"

section \<open>The expression evaluator\<close>

lemma all_results_append_truthy:
  "all_truthy h vars pre \<Longrightarrow>
   all_results h (map (eval_node h vars) (pre @ es)) = all_results h (map (eval_node h vars) es)"
  by (induction pre) (auto simp: all_truthy_def split: sum.splits)

lemma any_results_append_falsy:
  "all_falsy h vars pre \<Longrightarrow>
   any_results h (map (eval_node h vars) (pre @ es)) = any_results h (map (eval_node h vars) es)"
  by (induction pre) (auto simp: all_falsy_def split: sum.splits)

lemma all_results_bool: "all_results h rs = Inr r \<Longrightarrow> \<exists>t. r = VBool t"
  by (induction h rs rule: all_results.induct) (auto split: if_splits)

lemma any_results_bool: "any_results h rs = Inr r \<Longrightarrow> \<exists>t. r = VBool t"
  by (induction h rs rule: any_results.induct) (auto split: if_splits)

text \<open>
  C9. A conjunction whose operands before \<open>e\<close> are all true and whose operand \<open>e\<close> is
  false is \<^verbatim>\<open>False\<close>, whatever operands follow, also ones whose evaluation would
  raise; a disjunction whose operands before \<open>e\<close> are all false and whose operand \<open>e\<close>
  is true is \<^verbatim>\<open>True\<close>, whatever follows. When no operand decides, the conjunction is
  \<^verbatim>\<open>True\<close> and the disjunction \<^verbatim>\<open>False\<close>. The value of either is always a
  boolean, never the operand itself.
\<close>

theorem short_circuit_truthiness:
  "(all_truthy h vars pre \<and> eval_node h vars e = Inr v \<and> \<not> truthy h v
      \<longrightarrow> eval_node h vars (E_BoolOp B_And (pre @ e # rest)) = Inr (VBool False))
   \<and> (all_falsy h vars pre \<and> eval_node h vars e = Inr v \<and> truthy h v
      \<longrightarrow> eval_node h vars (E_BoolOp B_Or (pre @ e # rest)) = Inr (VBool True))
   \<and> (all_truthy h vars pre \<longrightarrow> eval_node h vars (E_BoolOp B_And pre) = Inr (VBool True))
   \<and> (all_falsy h vars pre \<longrightarrow> eval_node h vars (E_BoolOp B_Or pre) = Inr (VBool False))
   \<and> (eval_node h vars (E_BoolOp b es) = Inr r \<longrightarrow> (\<exists>t. r = VBool t))"
proof (intro conjI impI)
  assume "all_truthy h vars pre \<and> eval_node h vars e = Inr v \<and> \<not> truthy h v"
  then show "eval_node h vars (E_BoolOp B_And (pre @ e # rest)) = Inr (VBool False)"
    using all_results_append_truthy [of h vars pre "e # rest"] by simp
next
  assume "all_falsy h vars pre \<and> eval_node h vars e = Inr v \<and> truthy h v"
  then show "eval_node h vars (E_BoolOp B_Or (pre @ e # rest)) = Inr (VBool True)"
    using any_results_append_falsy [of h vars pre "e # rest"] by simp
next
  assume "all_truthy h vars pre"
  then show "eval_node h vars (E_BoolOp B_And pre) = Inr (VBool True)"
    using all_results_append_truthy [of h vars pre "[]"] by simp
next
  assume "all_falsy h vars pre"
  then show "eval_node h vars (E_BoolOp B_Or pre) = Inr (VBool False)"
    using any_results_append_falsy [of h vars pre "[]"] by simp
next
  assume "eval_node h vars (E_BoolOp b es) = Inr r"
  then show "\<exists>t. r = VBool t"
    by (cases b) (auto dest: all_results_bool any_results_bool)
qed

text \<open>
  The theorem at \<^verbatim>\<open>1 and 0 and f()\<close> and at \<^verbatim>\<open>'' or 7 or f()\<close>: the call is never
  reached.
\<close>

theorem short_circuit_truthiness_witness:
  "all_truthy core_host Map.empty [E_Constant (K_Int 1)]
   \<and> eval_node core_host Map.empty (E_Constant (K_Int 0)) = Inr (VInt 0)
   \<and> \<not> truthy core_host (VInt 0)
   \<and> eval_node core_host Map.empty
        (E_BoolOp B_And [E_Constant (K_Int 1), E_Constant (K_Int 0), E_Call (E_Name ''f'') []])
      = Inr (VBool False)
   \<and> all_falsy core_host Map.empty [E_Constant (K_Str [])]
   \<and> eval_node core_host Map.empty (E_Constant (K_Int 7)) = Inr (VInt 7)
   \<and> truthy core_host (VInt 7)
   \<and> eval_node core_host Map.empty
        (E_BoolOp B_Or [E_Constant (K_Str []), E_Constant (K_Int 7), E_Call (E_Name ''f'') []])
      = Inr (VBool True)"
proof -
  have t: "all_truthy core_host Map.empty [E_Constant (K_Int 1)]"
    by (simp add: all_truthy_def)
  have f: "all_falsy core_host Map.empty [E_Constant (K_Str [])]"
    by (simp add: all_falsy_def)
  have z: "eval_node core_host Map.empty (E_Constant (K_Int 0)) = Inr (VInt 0)
           \<and> \<not> truthy core_host (VInt 0)"
    by simp
  have s: "eval_node core_host Map.empty (E_Constant (K_Int 7)) = Inr (VInt 7)
           \<and> truthy core_host (VInt 7)"
    by simp
  from short_circuit_truthiness [of core_host Map.empty "[E_Constant (K_Int 1)]"
      "E_Constant (K_Int 0)" "VInt 0" "[E_Call (E_Name ''f'') []]"] t z
  have 1: "eval_node core_host Map.empty
        (E_BoolOp B_And [E_Constant (K_Int 1), E_Constant (K_Int 0), E_Call (E_Name ''f'') []])
      = Inr (VBool False)" by simp
  from short_circuit_truthiness [of core_host Map.empty "[E_Constant (K_Str [])]"
      "E_Constant (K_Int 7)" "VInt 7" "[E_Call (E_Name ''f'') []]"] f s
  have 2: "eval_node core_host Map.empty
        (E_BoolOp B_Or [E_Constant (K_Str []), E_Constant (K_Int 7), E_Call (E_Name ''f'') []])
      = Inr (VBool True)" by simp
  from t f z s 1 2 show ?thesis by blast
qed

lemma collect_rejects:
  "\<exists>r\<in>set rs. isl r \<Longrightarrow> isl (collect rs)"
  by (induction rs rule: collect.induct) (auto split: sum.splits)

lemma dict_items_rejects:
  "\<exists>kv\<in>set rs. (case fst kv of None \<Rightarrow> True | Some k \<Rightarrow> isl k) \<or> isl (snd kv) \<Longrightarrow> isl (dict_items h d rs)"
  by (induction h d rs rule: dict_items.induct) (auto split: option.splits)

lemma zip_map_same: "zip (map f xs) (map g xs) = map (\<lambda>x. (f x, g x)) xs"
  by (induction xs) auto

lemma reach_and_rejects:
  "reach_and h ps \<Longrightarrow> \<forall>p\<in>set ps. fst p \<longrightarrow> isl (snd p) \<Longrightarrow> isl (all_results h (map snd ps))"
proof (induction ps)
  case Nil
  then show ?case by simp
next
  case (Cons p ps)
  obtain r res where p: "p = (r, res)" by (cases p)
  show ?case
  proof (cases res)
    case (Inl err)
    with p show ?thesis by simp
  next
    case (Inr v)
    with Cons.prems p have "\<not> r" by auto
    with Cons p Inr show ?thesis by (auto split: if_splits)
  qed
qed

lemma reach_or_rejects:
  "reach_or h ps \<Longrightarrow> \<forall>p\<in>set ps. fst p \<longrightarrow> isl (snd p) \<Longrightarrow> isl (any_results h (map snd ps))"
proof (induction ps)
  case Nil
  then show ?case by simp
next
  case (Cons p ps)
  obtain r res where p: "p = (r, res)" by (cases p)
  show ?case
  proof (cases res)
    case (Inl err)
    with p show ?thesis by simp
  next
    case (Inr v)
    with Cons.prems p have "\<not> r" by auto
    with Cons p Inr show ?thesis by (auto split: if_splits)
  qed
qed

lemma reach_chain_rejects:
  "reach_chain h (Inr lv) ts \<Longrightarrow> \<forall>t\<in>set ts. fst (snd t) \<longrightarrow> isl (snd (snd t))
   \<Longrightarrow> isl (compare_chain h lv (map (\<lambda>t. (fst t, snd (snd t))) ts))"
proof (induction ts arbitrary: lv)
  case Nil
  then show ?case by simp
next
  case (Cons t ts)
  obtain c r res where t: "t = (c, r, res)" by (cases t)
  show ?case
  proof (cases res)
    case (Inl err)
    with t show ?thesis by simp
  next
    case (Inr cv)
    with Cons.prems t have nr: "\<not> r" by auto
    show ?thesis
    proof (cases "allowed_compare_ops c")
      case False
      with t Inr show ?thesis by simp
    next
      case True
      show ?thesis
      proof (cases "h_compare h c lv cv")
        case None
        with t Inr True show ?thesis by simp
      next
        case (Some b)
        with Cons.prems(1) t Inr nr True have b: "b" and rest: "reach_chain h (Inr cv) ts"
          by (auto simp: link_false_def)
        from Cons.IH [OF rest] Cons.prems(2)
        have "isl (compare_chain h cv (map (\<lambda>t. (fst t, snd (snd t))) ts))" by simp
        with t Inr True Some b show ?thesis by simp
      qed
    qed
  qed
qed

lemma eval_node_rejects: "reaches_unsafe h vars e \<Longrightarrow> isl (eval_node h vars e)"
proof (induction e)
  case (E_BinOp l b r)
  then show ?case by (auto split: sum.splits)
next
  case (E_UnaryOp u e)
  then show ?case by (auto split: sum.splits)
next
  case (E_BoolOp b es)
  let ?ps = "map (\<lambda>e. (reaches_unsafe h vars e, eval_node h vars e)) es"
  have ih: "\<forall>p\<in>set ?ps. fst p \<longrightarrow> isl (snd p)" using E_BoolOp.IH by auto
  show ?case
  proof (cases b)
    case B_And
    with E_BoolOp.prems have "reach_and h ?ps" by (simp add: zip_map_same)
    from reach_and_rejects [OF this ih] B_And show ?thesis by (simp add: comp_def)
  next
    case B_Or
    with E_BoolOp.prems have "reach_or h ?ps" by (simp add: zip_map_same)
    from reach_or_rejects [OF this ih] B_Or show ?thesis by (simp add: comp_def)
  qed
next
  case (E_Compare l rest)
  show ?case
  proof (cases "eval_node h vars l")
    case (Inl err)
    then show ?thesis by simp
  next
    case (Inr lv)
    with E_Compare.IH(1) have nl: "\<not> reaches_unsafe h vars l" by auto
    let ?ts = "map (\<lambda>cx. (fst cx, reaches_unsafe h vars (snd cx), eval_node h vars (snd cx))) rest"
    have z: "zip (map fst rest)
               (zip (map snd (map (map_prod id (reaches_unsafe h vars)) rest))
                    (map (\<lambda>cx. eval_node h vars (snd cx)) rest)) = ?ts"
      by (induction rest) auto
    from E_Compare.prems nl Inr have rc: "reach_chain h (Inr lv) ?ts" unfolding z [symmetric] by simp
    have ih: "\<forall>t\<in>set ?ts. fst (snd t) \<longrightarrow> isl (snd (snd t))"
    proof
      fix t assume "t \<in> set ?ts"
      then obtain cx where cx: "cx \<in> set rest"
        and t: "t = (fst cx, reaches_unsafe h vars (snd cx), eval_node h vars (snd cx))" by auto
      from E_Compare.IH(2) [of cx "snd cx"] cx
      have "reaches_unsafe h vars (snd cx) \<Longrightarrow> isl (eval_node h vars (snd cx))"
        by (cases cx) auto
      with t show "fst (snd t) \<longrightarrow> isl (snd (snd t))" by simp
    qed
    have m: "map (\<lambda>t. (fst t, snd (snd t))) ?ts = map (map_prod id (eval_node h vars)) rest"
      by (induction rest) auto
    from reach_chain_rejects [OF rc ih] have "isl (compare_chain h lv (map (map_prod id (eval_node h vars)) rest))"
      unfolding m .
    with Inr show ?thesis by simp
  qed
next
  case (E_List es)
  then have "\<exists>r\<in>set (map (eval_node h vars) es). isl r"
    by (auto simp: list_ex_iff)
  then show ?case using collect_rejects by (fastforce split: sum.splits)
next
  case (E_Tuple es)
  then have "\<exists>r\<in>set (map (eval_node h vars) es). isl r"
    by (auto simp: list_ex_iff)
  then show ?case using collect_rejects by (fastforce split: sum.splits)
next
  case (E_Dict kvs)
  from E_Dict.prems obtain ko v where kv: "(ko, v) \<in> set kvs"
    and u: "(case ko of None \<Rightarrow> True | Some k \<Rightarrow> reaches_unsafe h vars k) \<or> reaches_unsafe h vars v"
    by (auto simp: list_ex_iff split: option.splits)
  have "(case map_option (eval_node h vars) ko of None \<Rightarrow> True | Some k \<Rightarrow> isl k) \<or> isl (eval_node h vars v)"
  proof (cases ko)
    case None
    then show ?thesis by simp
  next
    case (Some k)
    show ?thesis
    proof (cases "reaches_unsafe h vars k")
      case True
      with E_Dict.IH(1) [of "(ko, v)" ko k] kv Some show ?thesis by simp
    next
      case False
      with u Some have "reaches_unsafe h vars v" by simp
      with E_Dict.IH(2) [of "(ko, v)" v] kv show ?thesis by simp
    qed
  qed
  with kv have "\<exists>kv\<in>set (map (map_prod (map_option (eval_node h vars)) (eval_node h vars)) kvs).
               (case fst kv of None \<Rightarrow> True | Some k \<Rightarrow> isl k) \<or> isl (snd kv)"
    by (intro bexI [of _ "map_prod (map_option (eval_node h vars)) (eval_node h vars) (ko, v)"]) auto
  from dict_items_rejects [OF this, of h "[]"] show ?case
    by (auto split: sum.splits simp: isl_def)
next
  case (E_Subscript c i)
  then show ?case by (auto split: sum.splits)
qed simp_all

text \<open>
  C7, as the code has it. A text that does not parse is rejected, and so is every
  expression with an operator outside the tables, an attribute access, a call or another
  unsupported node kind anywhere but in an operand that short-circuit evaluation skips:
  an operand of \<^verbatim>\<open>and\<close> after an operand that evaluates to a false value, an operand of
  \<^verbatim>\<open>or\<close> after one that evaluates to a true value, a link of a comparison chain after
  a link that compares to \<^verbatim>\<open>False\<close>. (A text with an augmented assignment does not
  parse in \<^verbatim>\<open>eval\<close> mode.) The exception is always the one "unsafe expression" error of
  \<^verbatim>\<open>safe_eval\<close>.
\<close>

theorem unsafe_rejected_when_reached:
  "safe_eval h None vars = Inl (Unsafe ParseError)
   \<and> (reaches_unsafe h vars e \<longrightarrow> (\<exists>err. safe_eval h (Some e) vars = Inl (Unsafe err)))"
  using eval_node_rejects [of h vars e]
  by (auto simp: safe_eval_def isl_def split: sum.splits)

text \<open>
  The theorem at \<^verbatim>\<open>1 + f()\<close>, at \<^verbatim>\<open>True and f()\<close>, at \<^verbatim>\<open>0 or f()\<close> and at
  \<^verbatim>\<open>1 < 2 < x.y\<close>: the second operand and the second link are evaluated, and the
  expression is rejected.
\<close>

theorem unsafe_rejected_when_reached_witness:
  "reaches_unsafe core_host Map.empty (E_BinOp (E_Constant (K_Int 1)) B_Add (E_Call (E_Name ''f'') []))
   \<and> safe_eval core_host (Some (E_BinOp (E_Constant (K_Int 1)) B_Add (E_Call (E_Name ''f'') [])))
         Map.empty = Inl (Unsafe UnsupportedNode)
   \<and> reaches_unsafe core_host Map.empty
         (E_BoolOp B_And [E_Constant (K_Bool True), E_Call (E_Name ''f'') []])
   \<and> safe_eval core_host (Some (E_BoolOp B_And [E_Constant (K_Bool True), E_Call (E_Name ''f'') []]))
         Map.empty = Inl (Unsafe UnsupportedNode)
   \<and> reaches_unsafe core_host Map.empty
         (E_BoolOp B_Or [E_Constant (K_Int 0), E_Call (E_Name ''f'') []])
   \<and> safe_eval core_host (Some (E_BoolOp B_Or [E_Constant (K_Int 0), E_Call (E_Name ''f'') []]))
         Map.empty = Inl (Unsafe UnsupportedNode)
   \<and> reaches_unsafe core_host Map.empty
         (E_Compare (E_Constant (K_Int 1))
            [(C_Lt, E_Constant (K_Int 2)), (C_Lt, E_Attribute (E_Name ''x'') ''y'')])
   \<and> safe_eval core_host
         (Some (E_Compare (E_Constant (K_Int 1))
            [(C_Lt, E_Constant (K_Int 2)), (C_Lt, E_Attribute (E_Name ''x'') ''y'')]))
         Map.empty = Inl (Unsafe UnsupportedNode)"
proof -
  let ?e1 = "E_BinOp (E_Constant (K_Int 1)) B_Add (E_Call (E_Name ''f'') [])"
  let ?e2 = "E_BoolOp B_And [E_Constant (K_Bool True), E_Call (E_Name ''f'') []]"
  let ?e3 = "E_BoolOp B_Or [E_Constant (K_Int 0), E_Call (E_Name ''f'') []]"
  let ?e4 = "E_Compare (E_Constant (K_Int 1))
            [(C_Lt, E_Constant (K_Int 2)), (C_Lt, E_Attribute (E_Name ''x'') ''y'')]"
  have r1: "reaches_unsafe core_host Map.empty ?e1" by simp
  have r2: "reaches_unsafe core_host Map.empty ?e2" by simp
  have r3: "reaches_unsafe core_host Map.empty ?e3" by simp
  have r4: "reaches_unsafe core_host Map.empty ?e4"
    by (simp add: link_false_def core_host_def core_compare_def)
  from unsafe_rejected_when_reached [of core_host Map.empty ?e1] r1
  have 1: "safe_eval core_host (Some ?e1) Map.empty = Inl (Unsafe UnsupportedNode)"
    by (simp add: safe_eval_def)
  from unsafe_rejected_when_reached [of core_host Map.empty ?e2] r2
  have 2: "safe_eval core_host (Some ?e2) Map.empty = Inl (Unsafe UnsupportedNode)"
    by (simp add: safe_eval_def)
  from unsafe_rejected_when_reached [of core_host Map.empty ?e3] r3
  have 3: "safe_eval core_host (Some ?e3) Map.empty = Inl (Unsafe UnsupportedNode)"
    by (simp add: safe_eval_def)
  from unsafe_rejected_when_reached [of core_host Map.empty ?e4] r4
  have 4: "safe_eval core_host (Some ?e4) Map.empty = Inl (Unsafe UnsupportedNode)"
    by (simp add: safe_eval_def core_host_def core_compare_def)
  from r1 r2 r3 r4 1 2 3 4 show ?thesis by blast
qed

text \<open>
  C7 as stated fails: \<^verbatim>\<open>False and f()\<close> contains call syntax and evaluates to
  \<^verbatim>\<open>False\<close>, because \<^verbatim>\<open>all\<close> never asks the generator for the second operand.
\<close>

theorem skipped_call_counterexample:
  "contains_unsafe (E_BoolOp B_And [E_Constant (K_Bool False), E_Call (E_Name ''f'') []])
   \<and> safe_eval core_host
        (Some (E_BoolOp B_And [E_Constant (K_Bool False), E_Call (E_Name ''f'') []])) Map.empty
      = Inr (VBool False)"
  by (simp add: safe_eval_def)

section \<open>Variables and messages\<close>

lemma eungdi_keeps [simp]:
  "scopes (eungdi m b s) = scopes s" "heap (eungdi m b s) = heap s"
  "debug (eungdi m b s) = debug s" "fast (eungdi m b s) = fast s" "prompt (eungdi m b s) = prompt s"
  by (simp_all add: eungdi_def)

lemma get_combined_scope_eungdi [simp]:
  "get_combined_scope (eungdi m b s) = get_combined_scope s"
  by (simp add: get_combined_scope_def)

text \<open>
  C10. When the right-hand side of an assignment raises in \<^verbatim>\<open>safe_eval\<close>, the handler
  only writes the error message; when it evaluates to \<^verbatim>\<open>None\<close>, the handler changes
  nothing at all and writes no message. In both cases the stack, the frames and so
  every binding are as before.
\<close>

theorem assign_failed_eval_no_write:
  "(safe_eval h e (get_combined_scope s) = Inl err
      \<longrightarrow> handle_assign h x e s = eungdi (M_EvalError err) True s)
   \<and> (safe_eval h e (get_combined_scope s) = Inr VNone \<longrightarrow> handle_assign h x e s = s)
   \<and> (fst (evaluate_expression h e s) = VNone
      \<longrightarrow> scopes (handle_assign h x e s) = scopes s
        \<and> heap (handle_assign h x e s) = heap s
        \<and> get_combined_scope (handle_assign h x e s) = get_combined_scope s)"
  by (auto simp: handle_assign_def evaluate_expression_def split: sum.splits)

text \<open>
  The theorem at the interpreter as constructed: an assignment to the name \<^verbatim>\<open>sqrt\<close>
  with a text that does not parse, and with the text \<^verbatim>\<open>None\<close>.
\<close>

theorem assign_failed_eval_no_write_witness:
  "safe_eval core_host None (get_combined_scope (init_state False False)) = Inl (Unsafe ParseError)
   \<and> handle_assign core_host ''sqrt'' None (init_state False False)
       = eungdi (M_EvalError (Unsafe ParseError)) True (init_state False False)
   \<and> safe_eval core_host (Some (E_Constant K_None)) (get_combined_scope (init_state False False))
       = Inr VNone
   \<and> handle_assign core_host ''sqrt'' (Some (E_Constant K_None)) (init_state False False)
       = init_state False False
   \<and> fst (evaluate_expression core_host None (init_state False False)) = VNone
   \<and> heap (handle_assign core_host ''sqrt'' None (init_state False False)) = [builtins_frame]"
proof -
  have a: "safe_eval core_host None (get_combined_scope (init_state False False)) = Inl (Unsafe ParseError)"
    by (simp add: safe_eval_def)
  have b: "safe_eval core_host (Some (E_Constant K_None)) (get_combined_scope (init_state False False))
       = Inr VNone"
    by (simp add: safe_eval_def)
  have c: "fst (evaluate_expression core_host None (init_state False False)) = VNone"
    by (simp add: evaluate_expression_def safe_eval_def)
  from assign_failed_eval_no_write [of core_host None "init_state False False" "Unsafe ParseError" "''sqrt''"] a c
  have 1: "handle_assign core_host ''sqrt'' None (init_state False False)
       = eungdi (M_EvalError (Unsafe ParseError)) True (init_state False False)"
    and 3: "heap (handle_assign core_host ''sqrt'' None (init_state False False)) = heap (init_state False False)"
    by simp_all
  from assign_failed_eval_no_write [of core_host "Some (E_Constant K_None)" "init_state False False" _ "''sqrt''"] b
  have 2: "handle_assign core_host ''sqrt'' (Some (E_Constant K_None)) (init_state False False)
       = init_state False False" by simp
  from a b c 1 2 3 show ?thesis by (simp add: init_state_def)
qed

section \<open>Function calls\<close>

text \<open>
  C8. A call with a number of arguments different from the number of parameters
  returns normally with \<^verbatim>\<open>None\<close>; it writes the arity error and nothing else changes:
  the stack and the frames are those before the call, and the body is not run.
\<close>

theorem call_arity_mismatch:
  "length args \<noteq> length params \<longrightarrow>
     (\<exists>s'. call ex params block closure args s = Some (Normal, VNone, s')
           \<and> s' = eungdi (M_ArityMismatch (length params) (length args)) True s
           \<and> scopes s' = scopes s \<and> heap s' = heap s
           \<and> logged s' = logged s @ [(M_ArityMismatch (length params) (length args), True)])"
  by (simp add: call_def eungdi_def)

text \<open>The theorem at a function of two parameters called with one argument.\<close>

theorem call_arity_mismatch_witness:
  "length [VInt 1] \<noteq> length [''a'', ''b'']
   \<and> call (execute_lines core_host 5) [''a'', ''b''] [L_Return None] [0] [VInt 1] (init_state False False)
       = Some (Normal, VNone, (init_state False False)\<lparr>logged := [(M_ArityMismatch 2 1, True)]\<rparr>)"
  using call_arity_mismatch [of "[VInt 1]" "[''a'', ''b'']" "execute_lines core_host 5" "[L_Return None]"
           "[0]" "init_state False False"]
  by (simp add: eungdi_def init_state_def)

section \<open>Runs of whole programs\<close>

text \<open>
  C1, observed on the code. The program \<open>leak_program\<close> starts with one frame on the
  stack and ends with two: the \<^verbatim>\<open>break\<close> leaves \<^verbatim>\<open>process_if\<close> before its
  \<^verbatim>\<open>pop_scope\<close>, and the loop that catches it pops one frame only.
\<close>

theorem if_break_leaks_scope:
  "length (scopes (init_state False False)) = 1
   \<and> map_option (\<lambda>r. (fst r, scopes (snd r), logged (snd r)))
        (interpret_program core_host 5 leak_program (init_state False False))
      = Some (Finished, [0, 1], [])"
  by code_simp

text \<open>
  C4, observed on the code. In \<open>escape_program\<close> the \<^verbatim>\<open>break\<close> of the body of \<open>f\<close> is
  not an error of the call: it ends the loop around the call, no message is written,
  and the stack is not put back. The run ends on the frame that is the closure's copy
  of the global frame (address 1), not on the global frame (address 0).
\<close>

theorem break_escapes_call:
  "map_option (\<lambda>r. (fst r, scopes (snd r), logged (snd r)))
        (interpret_program core_host 5 escape_program (init_state False False))
      = Some (Finished, [1], [(M_Text ''after'', False)])"
  by code_simp

text \<open>
  C6, observed on the code. The scan of the outer loop's body stops at the closing line
  of the inner loop. The inner body runs once per outer element; the line that writes
  \<open>i\<close> runs once, after the outer loop and outside its scope, and the last closing line
  is an unknown command.
\<close>

theorem inner_end_for_closes_outer:
  "scan_for (tl nested_for_program)
     = ([L_For ''j'' (Some (E_List [E_Constant (K_Int 10)])), L_Cmd (C_Output ''j'')],
        [L_Cmd (C_Output ''i''), L_EndFor])
   \<and> map_option (\<lambda>r. (fst r, scopes (snd r), logged (snd r)))
        (interpret_program core_host 6 nested_for_program (init_state False False))
      = Some (Finished, [0],
          [(M_Value (VInt 10), False), (M_Value (VInt 10), False),
           (M_NotDeclared ''i'', True), (M_Value VNone, False), (M_UnknownCommand, True)])"
  by code_simp

section \<open>Errors and signals at the top level\<close>

subsection \<open>What the handlers leave of the stack\<close>

lemma scopes_assign_variable [simp]: "scopes (assign_variable x v s) = scopes s"
  by (simp add: assign_variable_def split: option.splits)

lemma scopes_get_variable [simp]: "scopes (snd (get_variable x s)) = scopes s"
  by (simp add: get_variable_def split: option.splits)

lemma scopes_evaluate_expression [simp]: "scopes (snd (evaluate_expression h e s)) = scopes s"
  by (simp add: evaluate_expression_def split: sum.splits)

lemma scopes_sys: "sys h c s = (a, s1) \<Longrightarrow> scopes s1 = scopes s"
  by (auto simp: sys_def split: prod.splits)

lemma scopes_try_sys [simp]: "scopes (try_sys h c request s) = scopes s"
  by (auto simp: try_sys_def split: prod.splits answer.splits dest: scopes_sys)

lemma scopes_try_math [simp]: "scopes (try_math h c f args s) = scopes s"
  by (simp add: try_math_def split: option.splits)

lemma scopes_handle_assign [simp]: "scopes (handle_assign h x e s) = scopes s"
  by (simp add: handle_assign_def case_prod_beta split: val.splits)

lemma scopes_read_file: "read_file h p s = (v, s1) \<Longrightarrow> scopes s1 = scopes s"
  by (auto simp: read_file_def split: prod.splits answer.splits pyexc.splits dest: scopes_sys)

lemma scopes_handle_readfile [simp]: "scopes (handle_readfile h p s) = scopes s"
  by (auto simp: handle_readfile_def split: val.splits prod.splits dest: scopes_read_file)

lemma scopes_handle_output [simp]: "scopes (handle_output x s) = scopes s"
  by (simp add: handle_output_def case_prod_beta)

lemma scopes_fold_eungdi: "scopes (fold (\<lambda>kv. eungdi (m kv) b) kvs s) = scopes s"
  by (induction kvs arbitrary: s) simp_all

lemma scopes_handle_list_vars [simp]: "scopes (handle_list_vars s) = scopes s"
  by (simp add: handle_list_vars_def scopes_fold_eungdi)

lemma scopes_handle_json_dump [simp]: "scopes (handle_json_dump h x s) = scopes s"
  by (simp add: handle_json_dump_def case_prod_beta split: val.splits)

lemma scopes_handle_list_append [simp]: "scopes (handle_list_append h x e s) = scopes s"
  by (simp add: handle_list_append_def case_prod_beta split: val.splits)

lemma scopes_handle_list_delete [simp]: "scopes (handle_list_delete h x e s) = scopes s"
  by (simp add: handle_list_delete_def case_prod_beta split: val.splits option.splits)

lemma scopes_handle_uppercase [simp]: "scopes (handle_uppercase h x s) = scopes s"
  by (simp add: handle_uppercase_def case_prod_beta split: val.splits)

lemma scopes_handle_lowercase [simp]: "scopes (handle_lowercase h x s) = scopes s"
  by (simp add: handle_lowercase_def case_prod_beta split: val.splits)

lemma scopes_handle_random_number [simp]: "scopes (handle_random_number h a b s) = scopes s"
  by (simp add: handle_random_number_def case_prod_beta)

lemma scopes_handle_shuffle_list [simp]: "scopes (handle_shuffle_list h x s) = scopes s"
  by (simp add: handle_shuffle_list_def case_prod_beta split: val.splits)

lemma scopes_handle_power [simp]: "scopes (handle_power h a b s) = scopes s"
  by (simp add: handle_power_def case_prod_beta)

lemma scopes_handle_sqrt [simp]: "scopes (handle_sqrt h a s) = scopes s"
  by (simp add: handle_sqrt_def case_prod_beta)

lemma scopes_handle_log [simp]: "scopes (handle_log h a b s) = scopes s"
  by (simp add: handle_log_def case_prod_beta)

lemma scopes_handle_save_vars [simp]: "scopes (handle_save_vars h p s) = scopes s"
  by (simp add: handle_save_vars_def)

lemma scopes_handle_load_vars [simp]: "scopes (handle_load_vars h p s) = scopes s"
  by (simp add: handle_load_vars_def case_prod_beta Let_def)

lemma scopes_handle_change_directory [simp]: "scopes (handle_change_directory h p s) = scopes s"
  by (auto simp: handle_change_directory_def split: prod.splits answer.splits dest: scopes_sys)




subsection \<open>Reported errors and escaping exceptions\<close>




section \<open>The first frame\<close>

text \<open>
  C5, observed on the code. The interpreter is constructed with one frame, which
  holds the builtins, and \<^verbatim>\<open>declare_variable\<close> writes to the last frame of the stack:
  the program \<open>first_frame_program\<close>, which neither resets nor assigns, declares \<open>x\<close> at
  the top level and ends with \<open>x\<close> stored in the frame at index 0, next to the builtins.
  No frame at an index above 0 exists. The reset command, which keeps "the builtins"
  by copying the first frame, keeps the user's variable with them: in
  \<open>reset_program\<close> the variable \<open>x\<close> still has its value 1 after the reset.
\<close>

theorem declaration_stored_in_builtins_frame:
  "scopes (init_state False False) = [0]
   \<and> frame_at (heap (init_state False False)) 0 = builtins_frame
   \<and> map_option (\<lambda>r. (fst r, scopes (snd r), heap (snd r), logged (snd r)))
        (interpret_program core_host 5 first_frame_program (init_state False False))
      = Some (Finished, [0], [builtins_frame @ [(''x'', VNone)]], [])
   \<and> builtins_frame @ [(''x'', VNone)] \<noteq> builtins_frame
   \<and> map_option (\<lambda>r. (fst r, map (frame_at (heap (snd r))) (scopes (snd r)), logged (snd r)))
        (interpret_program core_host 6 reset_program (init_state False False))
      = Some (Finished, [builtins_frame @ [(''x'', VInt 1)]],
              [(M_ResetDone, False), (M_Value (VInt 1), False)])"
  by code_simp

section \<open>Closures\<close>

subsection \<open>Values and their closure addresses\<close>

lemma rename_cong:
  "(\<And>a. a \<in> set (closure_addrs v) \<Longrightarrow> \<sigma> a = \<tau> a) \<Longrightarrow> rename \<sigma> v = rename \<tau> v"
proof (induction v)
  case (VList vs)
  have "\<And>v. v \<in> set vs \<Longrightarrow> rename \<sigma> v = rename \<tau> v"
    using VList.IH VList.prems by auto
  then show ?case by simp
next
  case (VTuple vs)
  have "\<And>v. v \<in> set vs \<Longrightarrow> rename \<sigma> v = rename \<tau> v"
    using VTuple.IH VTuple.prems by auto
  then show ?case by simp
next
  case (VDict kvs)
  have "\<And>kv. kv \<in> set kvs \<Longrightarrow> map_prod (rename \<sigma>) (rename \<sigma>) kv = map_prod (rename \<tau>) (rename \<tau>) kv"
  proof -
    fix kv assume m: "kv \<in> set kvs"
    obtain k v where kv: "kv = (k, v)" by (cases kv)
    have "rename \<sigma> k = rename \<tau> k"
      using VDict.IH(1) [of kv k] VDict.prems m kv by force
    moreover have "rename \<sigma> v = rename \<tau> v"
      using VDict.IH(2) [of kv v] VDict.prems m kv by force
    ultimately show "map_prod (rename \<sigma>) (rename \<sigma>) kv = map_prod (rename \<tau>) (rename \<tau>) kv"
      using kv by simp
  qed
  then show ?case by simp
qed simp_all

lemma closure_addrs_rename: "closure_addrs (rename \<sigma> v) = map \<sigma> (closure_addrs v)"
proof (induction v)
  case (VList vs)
  then have e: "map (\<lambda>v. closure_addrs (rename \<sigma> v)) vs = map (\<lambda>v. map \<sigma> (closure_addrs v)) vs"
    by simp
  show ?case by (simp add: map_concat comp_def e)
next
  case (VTuple vs)
  then have e: "map (\<lambda>v. closure_addrs (rename \<sigma> v)) vs = map (\<lambda>v. map \<sigma> (closure_addrs v)) vs"
    by simp
  show ?case by (simp add: map_concat comp_def e)
next
  case (VDict kvs)
  have "\<And>kv. kv \<in> set kvs \<Longrightarrow>
          closure_addrs (rename \<sigma> (fst kv)) @ closure_addrs (rename \<sigma> (snd kv))
          = map \<sigma> (closure_addrs (fst kv) @ closure_addrs (snd kv))"
  proof -
    fix kv assume m: "kv \<in> set kvs"
    obtain k v where kv: "kv = (k, v)" by (cases kv)
    from VDict.IH(1) [of kv k] VDict.IH(2) [of kv v] m kv
    show "closure_addrs (rename \<sigma> (fst kv)) @ closure_addrs (rename \<sigma> (snd kv))
          = map \<sigma> (closure_addrs (fst kv) @ closure_addrs (snd kv))" by simp
  qed
  then have e: "map (\<lambda>kv. closure_addrs (rename \<sigma> (fst kv)) @ closure_addrs (rename \<sigma> (snd kv))) kvs
             = map (\<lambda>kv. map \<sigma> (closure_addrs (fst kv)) @ map \<sigma> (closure_addrs (snd kv))) kvs"
    by simp
  show ?case by (simp add: map_concat comp_def e)
qed simp_all

lemma rename_func_free: "func_free v \<Longrightarrow> rename \<sigma> v = v"
proof (induction v)
  case (VList vs)
  then have "\<And>v. v \<in> set vs \<Longrightarrow> rename \<sigma> v = v" by (auto simp: list_all_iff)
  then show ?case by (simp add: map_idI)
next
  case (VTuple vs)
  then have "\<And>v. v \<in> set vs \<Longrightarrow> rename \<sigma> v = v" by (auto simp: list_all_iff)
  then show ?case by (simp add: map_idI)
next
  case (VDict kvs)
  have "\<And>kv. kv \<in> set kvs \<Longrightarrow> map_prod (rename \<sigma>) (rename \<sigma>) kv = kv"
  proof -
    fix kv assume m: "kv \<in> set kvs"
    obtain k v where kv: "kv = (k, v)" by (cases kv)
    from VDict.prems m kv have "func_free k" "func_free v" by (auto simp: list_all_iff)
    with VDict.IH(1) [of kv k] VDict.IH(2) [of kv v] m kv
    show "map_prod (rename \<sigma>) (rename \<sigma>) kv = kv" by simp
  qed
  then show ?case by (simp add: map_idI)
qed simp_all

lemma closed_val_list:
  "closed_val K (VList vs) \<Longrightarrow> v \<in> set vs \<Longrightarrow> closed_val K v"
  "closed_val K (VTuple vs) \<Longrightarrow> v \<in> set vs \<Longrightarrow> closed_val K v"
  by (auto simp: closed_val_def list_all_iff)

lemma closed_val_dict:
  "closed_val K (VDict kvs) \<Longrightarrow> (k, v) \<in> set kvs \<Longrightarrow> closed_val K k \<and> closed_val K v"
  by (force simp: closed_val_def list_all_iff)

lemma covered_list:
  "(\<And>v. v \<in> set vs \<Longrightarrow> covered m v) \<Longrightarrow> covered m (VList vs)"
  "(\<And>v. v \<in> set vs \<Longrightarrow> covered m v) \<Longrightarrow> covered m (VTuple vs)"
  by (auto simp: covered_def list_all_iff)

lemma covered_dict:
  "(\<And>k v. (k, v) \<in> set kvs \<Longrightarrow> covered m k \<and> covered m v) \<Longrightarrow> covered m (VDict kvs)"
  by (fastforce simp: covered_def list_all_iff)

lemma list_all2_is_map:
  "list_all2 (\<lambda>v x. x = f v \<and> Q v) vs xs \<Longrightarrow> xs = map f vs \<and> (\<forall>v\<in>set vs. Q v)"
  by (induction vs xs rule: list_all2_induct) auto

lemma zip_fst_apsnd: "zip (map fst xs) (map (\<lambda>kv. f (snd kv)) xs) = map (apsnd f) xs"
  by (induction xs) auto

lemma map_of_apsnd: "map_of (map (apsnd f) xs) k = map_option f (map_of xs k)"
  by (induction xs) auto

subsection \<open>The deep copy is a copy\<close>

lemma grows_refl [simp]: "grows hp hp"
  by (simp add: grows_def)

lemma grows_iff: "grows hp hp' \<longleftrightarrow> (\<exists>ys. hp' = hp @ ys)"
proof
  assume "grows hp hp'"
  then have "hp' = hp @ drop (length hp) hp'"
    unfolding grows_def by (metis append_take_drop_id)
  then show "\<exists>ys. hp' = hp @ ys" ..
next
  assume "\<exists>ys. hp' = hp @ ys"
  then show "grows hp hp'" by (auto simp: grows_def)
qed

lemma grows_trans: "grows a b \<Longrightarrow> grows b c \<Longrightarrow> grows a c"
  by (auto simp: grows_iff)

lemma grows_length: "grows hp hp' \<Longrightarrow> length hp \<le> length hp'"
  by (simp add: grows_def)

lemma grows_frame_at: "grows hp hp' \<Longrightarrow> a < length hp \<Longrightarrow> frame_at hp' a = frame_at hp a"
  by (auto simp: grows_iff frame_at_def nth_append)

lemma post_refl [simp]: "post hp0 st st"
  by (simp add: post_def)

lemma post_grows: "post hp0 st st' \<Longrightarrow> grows (fst st) (fst st')"
  by (simp add: post_def)

lemma post_lookup:
  assumes "post hp0 st st'" "map_of (snd st) a = Some b"
  shows "map_of (snd st') a = Some b"
proof -
  from assms(1) obtain new where m: "snd st' = new @ snd st"
    and k: "\<forall>ab\<in>set new. map_of (snd st) (fst ab) = None"
    unfolding post_def by blast
  have "map_of new a = None"
  proof (cases "map_of new a")
    case (Some b')
    then have "(a, b') \<in> set new" by (rule map_of_SomeD)
    with k assms(2) show ?thesis by force
  qed simp
  with m assms(2) show ?thesis by (simp add: map_add_def)
qed

lemma post_memo_fun:
  assumes "post hp0 st st'" "map_of (snd st) a \<noteq> None"
  shows "memo_fun (snd st') a = memo_fun (snd st) a \<and> map_of (snd st') a \<noteq> None"
proof -
  from assms(2) obtain b where b: "map_of (snd st) a = Some b" by auto
  from post_lookup [OF assms(1) b] b show ?thesis by (simp add: memo_fun_def)
qed

lemma post_covered:
  assumes "post hp0 st st'" "covered (snd st) v"
  shows "covered (snd st') v \<and> rename (memo_fun (snd st')) v = rename (memo_fun (snd st)) v"
proof -
  have c: "\<And>a. a \<in> set (closure_addrs v) \<Longrightarrow> map_of (snd st) a \<noteq> None"
    using assms(2) by (auto simp: covered_def list_all_iff)
  have "covered (snd st') v"
    using c post_memo_fun [OF assms(1)] by (auto simp: covered_def list_all_iff)
  moreover have "rename (memo_fun (snd st')) v = rename (memo_fun (snd st)) v"
    by (rule rename_cong) (use c post_memo_fun [OF assms(1)] in auto)
  ultimately show ?thesis by simp
qed

lemma post_finished:
  assumes p: "post hp0 st st'" and f: "finished hp0 st ab" and b: "snd ab < length (fst st)"
  shows "finished hp0 st' ab"
proof -
  from f have fr: "frame_at (fst st) (snd ab)
                   = map (apsnd (rename (memo_fun (snd st)))) (frame_at hp0 (fst ab))"
    and cov: "\<forall>kv\<in>set (frame_at hp0 (fst ab)). covered (snd st) (snd kv)"
    by (simp_all add: finished_def list_all_iff)
  have same: "frame_at (fst st') (snd ab) = frame_at (fst st) (snd ab)"
    using grows_frame_at [OF post_grows [OF p] b] .
  have "map (apsnd (rename (memo_fun (snd st')))) (frame_at hp0 (fst ab))
        = map (apsnd (rename (memo_fun (snd st)))) (frame_at hp0 (fst ab))"
  proof (rule map_cong [OF refl])
    fix kv assume "kv \<in> set (frame_at hp0 (fst ab))"
    with cov post_covered [OF p] show "apsnd (rename (memo_fun (snd st'))) kv
          = apsnd (rename (memo_fun (snd st))) kv"
      by (cases kv) auto
  qed
  moreover have "\<forall>kv\<in>set (frame_at hp0 (fst ab)). covered (snd st') (snd kv)"
    using cov post_covered [OF p] by blast
  ultimately show ?thesis using fr same by (simp add: finished_def list_all_iff)
qed

lemma post_trans:
  assumes p1: "post hp0 st st1" and p2: "post hp0 st1 st2"
  shows "post hp0 st st2"
proof -
  from p1 obtain n1 where
    g1: "grows (fst st) (fst st1)" and m1: "snd st1 = n1 @ snd st"
    and d1: "distinct (map fst n1)" "distinct (map snd n1)"
    and e1: "\<forall>ab\<in>set n1. map_of (snd st) (fst ab) = None \<and> fst ab < length hp0 \<and>
               length (fst st) \<le> snd ab \<and> snd ab < length (fst st1) \<and> finished hp0 st1 ab"
    unfolding post_def by blast
  from p2 obtain n2 where
    g2: "grows (fst st1) (fst st2)" and m2: "snd st2 = n2 @ snd st1"
    and d2: "distinct (map fst n2)" "distinct (map snd n2)"
    and e2: "\<forall>ab\<in>set n2. map_of (snd st1) (fst ab) = None \<and> fst ab < length hp0 \<and>
               length (fst st1) \<le> snd ab \<and> snd ab < length (fst st2) \<and> finished hp0 st2 ab"
    unfolding post_def by blast
  have l1: "length (fst st) \<le> length (fst st1)" and l2: "length (fst st1) \<le> length (fst st2)"
    using g1 g2 by (simp_all add: grows_def)
  have k2: "\<forall>ab\<in>set n2. map_of n1 (fst ab) = None \<and> map_of (snd st) (fst ab) = None"
    using e2 m1 by (auto simp: map_add_def split: option.splits)
  have dk: "distinct (map fst (n2 @ n1))"
  proof -
    have "fst ` set n2 \<inter> fst ` set n1 = {}"
    proof (rule ccontr)
      assume "fst ` set n2 \<inter> fst ` set n1 \<noteq> {}"
      then obtain ab cd where "ab \<in> set n2" "cd \<in> set n1" "fst ab = fst cd" by auto
      with k2 have "map_of n1 (fst cd) = None" by metis
      with \<open>cd \<in> set n1\<close> show False by (metis domIff map_of_eq_None_iff image_eqI)
    qed
    with d1(1) d2(1) show ?thesis by simp
  qed
  have dv: "distinct (map snd (n2 @ n1))"
  proof -
    have "snd ` set n2 \<inter> snd ` set n1 = {}"
    proof (rule ccontr)
      assume "snd ` set n2 \<inter> snd ` set n1 \<noteq> {}"
      then obtain ab cd where "ab \<in> set n2" "cd \<in> set n1" "snd ab = snd cd" by auto
      with e1 e2 show False by fastforce
    qed
    with d1(2) d2(2) show ?thesis by simp
  qed
  have "\<forall>ab\<in>set (n2 @ n1). map_of (snd st) (fst ab) = None \<and> fst ab < length hp0 \<and>
            length (fst st) \<le> snd ab \<and> snd ab < length (fst st2) \<and> finished hp0 st2 ab"
  proof
    fix ab assume "ab \<in> set (n2 @ n1)"
    then consider "ab \<in> set n2" | "ab \<in> set n1" by auto
    then show "map_of (snd st) (fst ab) = None \<and> fst ab < length hp0 \<and>
            length (fst st) \<le> snd ab \<and> snd ab < length (fst st2) \<and> finished hp0 st2 ab"
    proof cases
      case 1
      with e2 k2 l1 show ?thesis by fastforce
    next
      case 2
      with e1 have a: "map_of (snd st) (fst ab) = None" "fst ab < length hp0"
        "length (fst st) \<le> snd ab" "snd ab < length (fst st1)" "finished hp0 st1 ab" by auto
      from post_finished [OF p2 a(5) a(4)] a l2 show ?thesis by simp
    qed
  qed
  moreover have "snd st2 = (n2 @ n1) @ snd st" using m1 m2 by simp
  ultimately show ?thesis
    unfolding post_def using grows_trans [OF g1 g2] dk dv by blast
qed

text \<open>
  A list of copies made one after the other: \<open>R v x st\<close> relates an original, its copy
  and a copy state, and it is stable under further steps.
\<close>

lemma thread_map_spec:
  assumes step: "\<And>v st x st'. v \<in> set vs \<Longrightarrow> grows hp0 (fst st) \<Longrightarrow> g v st = Some (x, st')
                  \<Longrightarrow> post hp0 st st' \<and> R v x st'"
      and stable: "\<And>v x st st'. R v x st \<Longrightarrow> post hp0 st st' \<Longrightarrow> R v x st'"
      and g: "grows hp0 (fst st)" and run: "thread (map g vs) st = Some (xs, st')"
  shows "post hp0 st st' \<and> list_all2 (\<lambda>v x. R v x st') vs xs"
  using step g run
proof (induction vs arbitrary: st xs st')
  case Nil
  then show ?case by simp
next
  case (Cons v vs)
  from Cons.prems(3) obtain x st1 ys where
    f: "g v st = Some (x, st1)" and r: "thread (map g vs) st1 = Some (ys, st')"
    and xs: "xs = x # ys"
    by (auto split: option.splits)
  from Cons.prems(1) [of v st x st1] Cons.prems(2) f
  have p1: "post hp0 st st1" and r1: "R v x st1" by simp_all
  from p1 have g1: "grows hp0 (fst st1)"
    using Cons.prems(2) grows_trans post_grows by blast
  have "post hp0 st1 st' \<and> list_all2 (\<lambda>v x. R v x st') vs ys"
  proof (rule Cons.IH [OF _ g1 r])
    fix w st x st'
    assume "w \<in> set vs" "grows hp0 (fst st)" "g w st = Some (x, st')"
    then show "post hp0 st st' \<and> R w x st'" using Cons.prems(1) [of w st x st'] by simp
  qed
  then have p2: "post hp0 st1 st'" and l: "list_all2 (\<lambda>v x. R v x st') vs ys" by simp_all
  from stable [OF r1 p2] have "R v x st'" .
  with post_trans [OF p1 p2] l xs show ?case by simp
qed

lemma deepcopy_val_spec:
  assumes spec: "frames_spec hp0 cf"
  shows "closed_val (length hp0) v \<Longrightarrow> grows hp0 (fst st)
         \<Longrightarrow> deepcopy_val cf v st = Some (v', st')
         \<Longrightarrow> post hp0 st st' \<and> v' = rename (memo_fun (snd st')) v \<and> covered (snd st') v"
proof (induction v arbitrary: st v' st')
  case (VList vs)
  from VList.prems(3) obtain ws where
    t: "thread (map (deepcopy_val cf) vs) st = Some (ws, st')" and v': "v' = VList ws"
    by (auto split: option.splits)
  have "post hp0 st st' \<and>
        list_all2 (\<lambda>v x. x = rename (memo_fun (snd st')) v \<and> covered (snd st') v) vs ws"
  proof (rule thread_map_spec
      [where R = "\<lambda>v x st. x = rename (memo_fun (snd st)) v \<and> covered (snd st) v",
       OF _ _ VList.prems(2) t])
    fix v st x st'
    assume "v \<in> set vs" "grows hp0 (fst st)" "deepcopy_val cf v st = Some (x, st')"
    then show "post hp0 st st' \<and> x = rename (memo_fun (snd st')) v \<and> covered (snd st') v"
      using VList.IH [of v st x st'] closed_val_list(1) [OF VList.prems(1)] by simp
  next
    fix v x st st'
    assume "x = rename (memo_fun (snd st)) v \<and> covered (snd st) v" "post hp0 st st'"
    then show "x = rename (memo_fun (snd st')) v \<and> covered (snd st') v"
      using post_covered by simp
  qed
  then have p: "post hp0 st st'"
    and l: "list_all2 (\<lambda>v x. x = rename (memo_fun (snd st')) v \<and> covered (snd st') v) vs ws"
    by simp_all
  from list_all2_is_map [OF l] have "ws = map (rename (memo_fun (snd st'))) vs"
    and "\<forall>v\<in>set vs. covered (snd st') v" by simp_all
  with p v' show ?case using covered_list(1) [of vs "snd st'"] by simp
next
  case (VTuple vs)
  from VTuple.prems(3) obtain ws where
    t: "thread (map (deepcopy_val cf) vs) st = Some (ws, st')" and v': "v' = VTuple ws"
    by (auto split: option.splits)
  have "post hp0 st st' \<and>
        list_all2 (\<lambda>v x. x = rename (memo_fun (snd st')) v \<and> covered (snd st') v) vs ws"
  proof (rule thread_map_spec
      [where R = "\<lambda>v x st. x = rename (memo_fun (snd st)) v \<and> covered (snd st) v",
       OF _ _ VTuple.prems(2) t])
    fix v st x st'
    assume "v \<in> set vs" "grows hp0 (fst st)" "deepcopy_val cf v st = Some (x, st')"
    then show "post hp0 st st' \<and> x = rename (memo_fun (snd st')) v \<and> covered (snd st') v"
      using VTuple.IH [of v st x st'] closed_val_list(2) [OF VTuple.prems(1)] by simp
  next
    fix v x st st'
    assume "x = rename (memo_fun (snd st)) v \<and> covered (snd st) v" "post hp0 st st'"
    then show "x = rename (memo_fun (snd st')) v \<and> covered (snd st') v"
      using post_covered by simp
  qed
  then have p: "post hp0 st st'"
    and l: "list_all2 (\<lambda>v x. x = rename (memo_fun (snd st')) v \<and> covered (snd st') v) vs ws"
    by simp_all
  from list_all2_is_map [OF l] have "ws = map (rename (memo_fun (snd st'))) vs"
    and "\<forall>v\<in>set vs. covered (snd st') v" by simp_all
  with p v' show ?case using covered_list(2) [of vs "snd st'"] by simp
next
  case (VDict kvs)
  let ?g = "\<lambda>kv. copy_item (map_prod (deepcopy_val cf) (deepcopy_val cf) kv)"
  from VDict.prems(3) obtain items where
    t: "thread (map ?g kvs) st = Some (items, st')" and v': "v' = VDict items"
    by (auto simp: comp_def split: option.splits)
  have "post hp0 st st' \<and>
        list_all2 (\<lambda>kv x. x = map_prod (rename (memo_fun (snd st'))) (rename (memo_fun (snd st'))) kv
                     \<and> (covered (snd st') (fst kv) \<and> covered (snd st') (snd kv))) kvs items"
  proof (rule thread_map_spec
      [where R = "\<lambda>kv x st. x = map_prod (rename (memo_fun (snd st))) (rename (memo_fun (snd st))) kv
                     \<and> (covered (snd st) (fst kv) \<and> covered (snd st) (snd kv))",
       OF _ _ VDict.prems(2) t])
    fix kv st x st'
    assume m: "kv \<in> set kvs" and g: "grows hp0 (fst st)" and r: "?g kv st = Some (x, st')"
    obtain k v where kv: "kv = (k, v)" by (cases kv)
    from closed_val_dict [OF VDict.prems(1)] m kv
    have c: "closed_val (length hp0) k" "closed_val (length hp0) v" by simp_all
    from r kv obtain w st1 kk where
      1: "deepcopy_val cf v st = Some (w, st1)" and 2: "deepcopy_val cf k st1 = Some (kk, st')"
      and x: "x = (kk, w)"
      by (auto simp: copy_item_def split: option.splits)
    from VDict.IH(2) [of kv v st w st1] m kv c g 1
    have p1: "post hp0 st st1" and w: "w = rename (memo_fun (snd st1)) v"
      and cv: "covered (snd st1) v" by simp_all
    from p1 have g1: "grows hp0 (fst st1)" using g grows_trans post_grows by blast
    from VDict.IH(1) [of kv k st1 kk st'] m kv c g1 2
    have p2: "post hp0 st1 st'" and kk: "kk = rename (memo_fun (snd st')) k"
      and ck: "covered (snd st') k" by simp_all
    from post_covered [OF p2 cv] w
    have "w = rename (memo_fun (snd st')) v" "covered (snd st') v" by simp_all
    with post_trans [OF p1 p2] kk ck x kv
    show "post hp0 st st' \<and>
          x = map_prod (rename (memo_fun (snd st'))) (rename (memo_fun (snd st'))) kv
          \<and> (covered (snd st') (fst kv) \<and> covered (snd st') (snd kv))" by simp
  next
    fix kv x st st'
    assume "x = map_prod (rename (memo_fun (snd st))) (rename (memo_fun (snd st))) kv
                     \<and> (covered (snd st) (fst kv) \<and> covered (snd st) (snd kv))" "post hp0 st st'"
    then show "x = map_prod (rename (memo_fun (snd st'))) (rename (memo_fun (snd st'))) kv
                     \<and> (covered (snd st') (fst kv) \<and> covered (snd st') (snd kv))"
      using post_covered [of hp0 st st'] by (cases kv) simp
  qed
  then have p: "post hp0 st st'"
    and l: "list_all2 (\<lambda>kv x. x = map_prod (rename (memo_fun (snd st'))) (rename (memo_fun (snd st'))) kv
                     \<and> (covered (snd st') (fst kv) \<and> covered (snd st') (snd kv))) kvs items"
    by simp_all
  from list_all2_is_map [OF l]
  have "items = map (map_prod (rename (memo_fun (snd st'))) (rename (memo_fun (snd st')))) kvs"
    and "\<forall>kv\<in>set kvs. covered (snd st') (fst kv) \<and> covered (snd st') (snd kv)" by simp_all
  with p v' show ?case using covered_dict [of kvs "snd st'"] by force
next
  case (VFunc ps block cl)
  from VFunc.prems(3) obtain cl1 where r: "cf cl st = Some (cl1, st')"
    and v': "v' = VFunc ps block cl1"
    by (auto split: option.splits)
  from VFunc.prems(1) have "list_all (\<lambda>a. a < length hp0) cl" by (simp add: closed_val_def)
  with spec r VFunc.prems(2) have p: "post hp0 st st'"
    and l: "list_all2 (\<lambda>a b. map_of (snd st') a = Some b) cl cl1"
    unfolding frames_spec_def by blast+
  from l have "cl1 = map (memo_fun (snd st')) cl \<and> (\<forall>a\<in>set cl. map_of (snd st') a \<noteq> None)"
    by (induction cl cl1 rule: list_all2_induct) (auto simp: memo_fun_def)
  with p v' show ?case by (simp add: covered_def list_all_iff)
qed (auto simp: covered_def)

lemma closed_heap_items:
  assumes "closed_heap hp0" "a < length hp0" "kv \<in> set (frame_at hp0 a)"
  shows "closed_val (length hp0) (snd kv)"
proof -
  from assms(2,3) have "kv \<in> set (hp0 ! a)" by (simp add: frame_at_def)
  moreover from assms(2) have "hp0 ! a \<in> set hp0" by simp
  ultimately show ?thesis using assms(1) by (auto simp: closed_heap_def list_all_iff)
qed

text \<open>The step that copies one frame not yet in the memo.\<close>

lemma copy_one_frame_post:
  assumes g: "grows hp0 hp" and a: "a < length hp0" and miss: "map_of m a = None"
      and p12: "post hp0 (hp @ [[]], (a, length hp) # m) (hp2, m2)"
      and fr: "F = map (apsnd (rename (memo_fun m2))) (frame_at hp0 a)"
      and cov: "list_all (\<lambda>kv. covered m2 (snd kv)) (frame_at hp0 a)"
  shows "post hp0 (hp, m) (hp2[length hp := F], m2)"
proof -
  let ?b = "length hp"
  from p12 obtain new1 where
    g12: "grows (hp @ [[]]) hp2" and m2: "m2 = new1 @ (a, ?b) # m"
    and d1: "distinct (map fst new1)" "distinct (map snd new1)"
    and e1: "\<forall>ab\<in>set new1. map_of ((a, ?b) # m) (fst ab) = None \<and> fst ab < length hp0 \<and>
               length (hp @ [[]]) \<le> snd ab \<and> snd ab < length hp2 \<and> finished hp0 (hp2, m2) ab"
    unfolding post_def by auto
  from g12 obtain ys where hp2: "hp2 = (hp @ [[]]) @ ys" unfolding grows_iff by blast
  then have upd: "hp2[?b := F] = hp @ F # ys" by (simp add: list_update_append)
  have gr: "grows hp (hp2[?b := F])" unfolding upd grows_iff by blast
  have mem: "m2 = (new1 @ [(a, ?b)]) @ m" using m2 by simp
  have k1: "\<forall>ab\<in>set new1. fst ab \<noteq> a \<and> map_of m (fst ab) = None \<and> snd ab \<noteq> ?b"
    using e1 by (auto split: if_splits)
  have dk: "distinct (map fst (new1 @ [(a, ?b)]))" using d1(1) k1 by auto
  have dv: "distinct (map snd (new1 @ [(a, ?b)]))" using d1(2) k1 by auto
  have "\<forall>ab\<in>set (new1 @ [(a, ?b)]). map_of m (fst ab) = None \<and> fst ab < length hp0 \<and>
           length hp \<le> snd ab \<and> snd ab < length (hp2[?b := F]) \<and>
           finished hp0 (hp2[?b := F], m2) ab"
  proof
    fix ab assume "ab \<in> set (new1 @ [(a, ?b)])"
    then consider "ab \<in> set new1" | "ab = (a, ?b)" by auto
    then show "map_of m (fst ab) = None \<and> fst ab < length hp0 \<and>
           length hp \<le> snd ab \<and> snd ab < length (hp2[?b := F]) \<and>
           finished hp0 (hp2[?b := F], m2) ab"
    proof cases
      case 1
      with e1 k1 have b: "map_of m (fst ab) = None" "fst ab < length hp0" "Suc ?b \<le> snd ab"
        "snd ab < length hp2" "finished hp0 (hp2, m2) ab" by auto
      from b(3) have "snd ab \<noteq> ?b" by simp
      then have "frame_at (hp2[?b := F]) (snd ab) = frame_at hp2 (snd ab)"
        by (simp add: frame_at_def)
      with b show ?thesis by (simp add: finished_def)
    next
      case 2
      have "frame_at (hp2[?b := F]) ?b = F"
        unfolding upd by (simp add: frame_at_def nth_append)
      with 2 fr cov miss a show ?thesis unfolding upd by (simp add: finished_def)
    qed
  qed
  with gr mem dk dv show ?thesis unfolding post_def by (metis fst_conv snd_conv)
qed

lemma deepcopy_frames_step:
  assumes IH: "frames_spec hp0 (deepcopy_frames n)" and closed: "closed_heap hp0"
      and run: "deepcopy_frames (Suc n) as st = Some (bs, st')"
      and g: "grows hp0 (fst st)" and inb: "list_all (\<lambda>a. a < length hp0) as"
  shows "post hp0 st st' \<and> list_all2 (\<lambda>a b. map_of (snd st') a = Some b) as bs"
proof (cases as)
  case Nil
  with run show ?thesis by simp
next
  case (Cons a as')
  from inb Cons have a: "a < length hp0" and inb': "list_all (\<lambda>a. a < length hp0) as'" by simp_all
  show ?thesis
  proof (cases "map_of (snd st) a")
    case (Some b)
    with run Cons obtain bs' where r: "deepcopy_frames n as' st = Some (bs', st')"
      and bs: "bs = b # bs'"
      by (auto split: option.splits)
    from IH r g inb' have p: "post hp0 st st'"
      and l: "list_all2 (\<lambda>a b. map_of (snd st') a = Some b) as' bs'"
      unfolding frames_spec_def by blast+
    from post_lookup [OF p Some] p l Cons bs show ?thesis by simp
  next
    case None
    let ?b = "length (fst st)"
    let ?items = "frame_at (fst st) a"
    let ?st1 = "(fst st @ [[]], (a, ?b) # snd st)"
    let ?g = "\<lambda>kv. deepcopy_val (deepcopy_frames n) (snd kv)"
    from run Cons None obtain vs st2 bs' where
      t: "thread (map ?g ?items) ?st1 = Some (vs, st2)"
      and r: "deepcopy_frames n as' ((fst st2)[?b := zip (map fst ?items) vs], snd st2) = Some (bs', st')"
      and bs: "bs = ?b # bs'"
      by (auto simp: Let_def split: option.splits)
    have items: "?items = frame_at hp0 a" using grows_frame_at [OF g a] .
    have g1: "grows hp0 (fst ?st1)" using g by (auto simp: grows_iff)
    have "post hp0 ?st1 st2 \<and>
          list_all2 (\<lambda>kv x. x = rename (memo_fun (snd st2)) (snd kv) \<and> covered (snd st2) (snd kv))
            ?items vs"
    proof (rule thread_map_spec
        [where R = "\<lambda>kv x st. x = rename (memo_fun (snd st)) (snd kv) \<and> covered (snd st) (snd kv)",
         OF _ _ g1 t])
      fix kv st x st'
      assume kv: "kv \<in> set ?items" and gg: "grows hp0 (fst st)" and rr: "?g kv st = Some (x, st')"
      from closed_heap_items [OF closed a] kv items have "closed_val (length hp0) (snd kv)"
        by simp
      from deepcopy_val_spec [OF IH this gg rr]
      show "post hp0 st st' \<and> x = rename (memo_fun (snd st')) (snd kv) \<and> covered (snd st') (snd kv)" .
    next
      fix kv x st st'
      assume "x = rename (memo_fun (snd st)) (snd kv) \<and> covered (snd st) (snd kv)" "post hp0 st st'"
      then show "x = rename (memo_fun (snd st')) (snd kv) \<and> covered (snd st') (snd kv)"
        using post_covered by simp
    qed
    then have p12: "post hp0 ?st1 st2"
      and l12: "list_all2 (\<lambda>kv x. x = rename (memo_fun (snd st2)) (snd kv) \<and> covered (snd st2) (snd kv))
            ?items vs" by simp_all
    from list_all2_is_map [OF l12]
    have vs: "vs = map (\<lambda>kv. rename (memo_fun (snd st2)) (snd kv)) ?items"
      and cov: "\<forall>kv\<in>set ?items. covered (snd st2) (snd kv)" by simp_all
    have fr: "zip (map fst ?items) vs = map (apsnd (rename (memo_fun (snd st2)))) (frame_at hp0 a)"
      unfolding vs using zip_fst_apsnd [where f = "rename (memo_fun (snd st2))" and xs = ?items] items by simp
    have cov': "list_all (\<lambda>kv. covered (snd st2) (snd kv)) (frame_at hp0 a)"
      using cov items by (simp add: list_all_iff)
    let ?st3 = "((fst st2)[?b := zip (map fst ?items) vs], snd st2)"
    have p3: "post hp0 st ?st3"
      using copy_one_frame_post [OF g a None _ fr cov', of "fst st2"] p12 by simp
    then have g3: "grows hp0 (fst ?st3)" using g grows_trans post_grows by blast
    from IH r g3 inb' have p: "post hp0 ?st3 st'"
      and l: "list_all2 (\<lambda>a b. map_of (snd st') a = Some b) as' bs'"
      unfolding frames_spec_def by blast+
    have "map_of (snd ?st1) a = Some ?b" by simp
    from post_lookup [OF p12 this] have "map_of (snd ?st3) a = Some ?b" by simp
    from post_lookup [OF p this] have "map_of (snd st') a = Some ?b" .
    with post_trans [OF p3 p] l Cons bs show ?thesis by simp
  qed
qed

lemma deepcopy_frames_spec: "closed_heap hp0 \<Longrightarrow> frames_spec hp0 (deepcopy_frames n)"
proof (induction n)
  case 0
  then show ?case by (simp add: frames_spec_def)
next
  case (Suc n)
  then have IH: "frames_spec hp0 (deepcopy_frames n)" by simp
  show ?case
    unfolding frames_spec_def
    using deepcopy_frames_step [OF IH Suc.prems] by blast
qed

text \<open>The copy of a stack, from an empty memo.\<close>

lemma deepcopy_scopes:
  assumes closed: "closed_heap hp" and inb: "list_all (\<lambda>a. a < length hp) as"
      and run: "deepcopy_frames n as (hp, []) = Some (bs, st')"
  shows "grows hp (fst st') \<and> bs = map (memo_fun (snd st')) as
         \<and> snapshot hp (fst st') (snd st') as"
proof -
  from deepcopy_frames_spec [OF closed, of n] run inb
  have p: "post hp (hp, []) st'" and l: "list_all2 (\<lambda>a b. map_of (snd st') a = Some b) as bs"
    unfolding frames_spec_def by (metis fst_conv grows_refl)+
  from l have bs: "bs = map (memo_fun (snd st')) as \<and> (\<forall>a\<in>set as. map_of (snd st') a \<noteq> None)"
    by (induction as bs rule: list_all2_induct) (auto simp: memo_fun_def)
  from p have d: "distinct (map fst (snd st'))" "distinct (map snd (snd st'))"
    and e: "\<forall>ab\<in>set (snd st'). fst ab < length hp \<and> length hp \<le> snd ab \<and> snd ab < length (fst st')
              \<and> finished hp st' ab"
    by (auto simp: post_def)
  from e have "list_all (\<lambda>ab. fst ab < length hp \<and> length hp \<le> snd ab \<and> snd ab < length (fst st')
                       \<and> frame_at (fst st') (snd ab)
                           = map (apsnd (rename (memo_fun (snd st')))) (frame_at hp (fst ab))
                       \<and> list_all (\<lambda>kv. covered (snd st') (snd kv)) (frame_at hp (fst ab))) (snd st')"
    by (simp add: list_all_iff finished_def)
  with bs d post_grows [OF p] show ?thesis by (simp add: snapshot_def list_all_iff)
qed

subsection \<open>The deep copy ends\<close>

lemma foldr_max_ge: "x \<in> set xs \<Longrightarrow> x \<le> foldr max xs (0::nat)"
  by (induction xs) auto

lemma max_closure_list:
  "v \<in> set vs \<Longrightarrow> max_closure v \<le> max_closure (VList vs)"
  "v \<in> set vs \<Longrightarrow> max_closure v \<le> max_closure (VTuple vs)"
  by (auto intro: foldr_max_ge)

lemma max_closure_dict:
  assumes "(k, v) \<in> set kvs"
  shows "max_closure k \<le> max_closure (VDict kvs) \<and> max_closure v \<le> max_closure (VDict kvs)"
proof -
  let ?xs = "map (\<lambda>kv. max (fst kv) (snd kv)) (map (map_prod max_closure max_closure) kvs)"
  from assms have "max (max_closure k) (max_closure v) \<in> set ?xs" by force
  from foldr_max_ge [OF this] show ?thesis by simp
qed

lemma closure_bound_items:
  assumes "a < length hp" "kv \<in> set (frame_at hp a)"
  shows "max_closure (snd kv) \<le> closure_bound hp"
proof -
  let ?w = "\<lambda>f. foldr max (map (\<lambda>kv. max_closure (snd kv)) f) 0"
  from assms have "kv \<in> set (hp ! a)" by (simp add: frame_at_def)
  then have "max_closure (snd kv) \<le> ?w (hp ! a)" by (auto intro: foldr_max_ge)
  moreover from assms(1) have "?w (hp ! a) \<in> set (map ?w hp)" by simp
  then have "?w (hp ! a) \<le> closure_bound hp"
    unfolding closure_bound_def by (rule foldr_max_ge)
  ultimately show ?thesis by simp
qed

lemma filter_length_mono:
  "(\<And>x. x \<in> set xs \<Longrightarrow> P x \<Longrightarrow> Q x) \<Longrightarrow> length (filter P xs) \<le> length (filter Q xs)"
  by (induction xs) auto

lemma filter_length_less:
  "x \<in> set xs \<Longrightarrow> Q x \<Longrightarrow> \<not> P x \<Longrightarrow> (\<And>y. y \<in> set xs \<Longrightarrow> P y \<Longrightarrow> Q y)
   \<Longrightarrow> length (filter P xs) < length (filter Q xs)"
proof (induction xs)
  case Nil
  then show ?case by simp
next
  case (Cons y ys)
  show ?case
  proof (cases "x = y")
    case True
    have "length (filter P ys) \<le> length (filter Q ys)"
      by (rule filter_length_mono) (use Cons.prems(4) in auto)
    with True Cons.prems(2,3) show ?thesis by simp
  next
    case False
    with Cons.prems have "x \<in> set ys" by simp
    from Cons.IH [OF this Cons.prems(2,3)] Cons.prems(4)
    have "length (filter P ys) < length (filter Q ys)" by simp
    then show ?thesis using Cons.prems(4) [of y] by auto
  qed
qed

lemma unvisited_mono: "post hp0 st st' \<Longrightarrow> unvisited hp0 st' \<le> unvisited hp0 st"
  unfolding unvisited_def
proof (rule filter_length_mono)
  fix a assume p: "post hp0 st st'" and n: "map_of (snd st') a = None"
  show "map_of (snd st) a = None"
  proof (cases "map_of (snd st) a")
    case (Some b)
    from post_lookup [OF p Some] n show ?thesis by simp
  qed simp
qed

lemma unvisited_add:
  assumes "a < length hp0" "map_of m a = None"
  shows "unvisited hp0 (hp', (a, b) # m) < unvisited hp0 (hp, m)"
  unfolding unvisited_def
  by (rule filter_length_less [of a]) (use assms in \<open>auto split: if_splits\<close>)

lemma unvisited_heap [simp]: "unvisited hp0 (hp', m) = unvisited hp0 (hp, m)"
  by (simp add: unvisited_def)

lemma unvisited_start: "unvisited hp0 (hp, []) = length hp0"
  by (simp add: unvisited_def)

lemma good_step:
  assumes "post hp0 st st'" "grows hp0 (fst st) \<and> unvisited hp0 st \<le> U"
  shows "grows hp0 (fst st') \<and> unvisited hp0 st' \<le> U"
proof -
  from assms have "grows hp0 (fst st')" using grows_trans [OF _ post_grows] by blast
  moreover from unvisited_mono [OF assms(1)] assms(2) have "unvisited hp0 st' \<le> U" by simp
  ultimately show ?thesis by simp
qed

lemma thread_total:
  assumes tot: "\<And>v st. v \<in> set vs \<Longrightarrow> good st \<Longrightarrow> \<exists>r. g v st = Some r"
      and keep: "\<And>v st x st'. v \<in> set vs \<Longrightarrow> good st \<Longrightarrow> g v st = Some (x, st') \<Longrightarrow> good st'"
      and good: "good st"
  shows "\<exists>r. thread (map g vs) st = Some r"
  using tot keep good
proof (induction vs arbitrary: st)
  case Nil
  then show ?case by simp
next
  case (Cons v vs)
  from Cons.prems(1) [of v st] Cons.prems(3) obtain x st1 where f: "g v st = Some (x, st1)"
    by auto
  from Cons.prems(2) [OF _ Cons.prems(3) f] have g1: "good st1" by simp
  have "\<exists>r. thread (map g vs) st1 = Some r"
  proof (rule Cons.IH [OF _ _ g1])
    fix w st assume "w \<in> set vs" "good st"
    then show "\<exists>r. g w st = Some r" using Cons.prems(1) [of w st] by simp
  next
    fix w st x st' assume "w \<in> set vs" "good st" "g w st = Some (x, st')"
    then show "good st'" using Cons.prems(2) [of w st x st'] by simp
  qed
  with f show ?case by auto
qed

text \<open>
  The copy of a value ends when the copy of every closure of at most \<open>L\<close> frames ends,
  from every copy state that has at most \<open>U\<close> frames left to visit.
\<close>

lemma deepcopy_val_total:
  assumes spec: "frames_spec hp0 cf"
      and tot: "\<And>cl st. grows hp0 (fst st) \<Longrightarrow> unvisited hp0 st \<le> U
                 \<Longrightarrow> list_all (\<lambda>a. a < length hp0) cl \<Longrightarrow> length cl \<le> L
                 \<Longrightarrow> \<exists>r. cf cl st = Some r"
  shows "closed_val (length hp0) v \<Longrightarrow> max_closure v \<le> L
         \<Longrightarrow> grows hp0 (fst st) \<and> unvisited hp0 st \<le> U
         \<Longrightarrow> \<exists>r. deepcopy_val cf v st = Some r"
proof (induction v arbitrary: st)
  case (VList vs)
  have "\<exists>r. thread (map (deepcopy_val cf) vs) st = Some r"
  proof (rule thread_total [where good = "\<lambda>st. grows hp0 (fst st) \<and> unvisited hp0 st \<le> U"])
    fix v st assume v: "v \<in> set vs" and g: "grows hp0 (fst st) \<and> unvisited hp0 st \<le> U"
    from max_closure_list(1) [OF v] VList.prems(2) have "max_closure v \<le> L" by simp
    from VList.IH [OF v closed_val_list(1) [OF VList.prems(1) v] this g]
    show "\<exists>r. deepcopy_val cf v st = Some r" .
  next
    fix v st x st'
    assume v: "v \<in> set vs" and g: "grows hp0 (fst st) \<and> unvisited hp0 st \<le> U"
      and r: "deepcopy_val cf v st = Some (x, st')"
    from g have gg: "grows hp0 (fst st)" by simp
    from deepcopy_val_spec [OF spec closed_val_list(1) [OF VList.prems(1) v] gg r]
    have "post hp0 st st'" by simp
    then show "grows hp0 (fst st') \<and> unvisited hp0 st' \<le> U" using g by (rule good_step)
  qed (rule VList.prems(3))
  then show ?case by auto
next
  case (VTuple vs)
  have "\<exists>r. thread (map (deepcopy_val cf) vs) st = Some r"
  proof (rule thread_total [where good = "\<lambda>st. grows hp0 (fst st) \<and> unvisited hp0 st \<le> U"])
    fix v st assume v: "v \<in> set vs" and g: "grows hp0 (fst st) \<and> unvisited hp0 st \<le> U"
    from max_closure_list(2) [OF v] VTuple.prems(2) have "max_closure v \<le> L" by simp
    from VTuple.IH [OF v closed_val_list(2) [OF VTuple.prems(1) v] this g]
    show "\<exists>r. deepcopy_val cf v st = Some r" .
  next
    fix v st x st'
    assume v: "v \<in> set vs" and g: "grows hp0 (fst st) \<and> unvisited hp0 st \<le> U"
      and r: "deepcopy_val cf v st = Some (x, st')"
    from g have gg: "grows hp0 (fst st)" by simp
    from deepcopy_val_spec [OF spec closed_val_list(2) [OF VTuple.prems(1) v] gg r]
    have "post hp0 st st'" by simp
    then show "grows hp0 (fst st') \<and> unvisited hp0 st' \<le> U" using g by (rule good_step)
  qed (rule VTuple.prems(3))
  then show ?case by auto
next
  case (VDict kvs)
  let ?g = "\<lambda>kv. copy_item (map_prod (deepcopy_val cf) (deepcopy_val cf) kv)"
  have step: "\<exists>x st'. ?g kv st = Some (x, st') \<and> grows hp0 (fst st') \<and> unvisited hp0 st' \<le> U"
    if m: "kv \<in> set kvs" and g: "grows hp0 (fst st) \<and> unvisited hp0 st \<le> U" for kv st
  proof -
    obtain k v where kv: "kv = (k, v)" by (cases kv)
    from closed_val_dict [OF VDict.prems(1)] m kv
    have c: "closed_val (length hp0) k" "closed_val (length hp0) v" by simp_all
    from max_closure_dict [of k v kvs] m kv VDict.prems(2)
    have b: "max_closure k \<le> L" "max_closure v \<le> L" by simp_all
    from VDict.IH(2) [of kv v st] m kv c b g obtain w st1 where
      1: "deepcopy_val cf v st = Some (w, st1)" by auto
    from g have gg: "grows hp0 (fst st)" by simp
    from deepcopy_val_spec [OF spec c(2) gg 1] have p1: "post hp0 st st1" by simp
    then have g1: "grows hp0 (fst st1) \<and> unvisited hp0 st1 \<le> U" using g by (rule good_step)
    from VDict.IH(1) [of kv k st1] m kv c b g1 obtain kk st2 where
      2: "deepcopy_val cf k st1 = Some (kk, st2)" by auto
    from g1 have gg1: "grows hp0 (fst st1)" by simp
    from deepcopy_val_spec [OF spec c(1) gg1 2] have p2: "post hp0 st1 st2" by simp
    then have g2: "grows hp0 (fst st2) \<and> unvisited hp0 st2 \<le> U" using g1 by (rule good_step)
    from 1 2 kv have "?g kv st = Some ((kk, w), st2)" by (simp add: copy_item_def)
    with g2 show ?thesis by blast
  qed
  have "\<exists>r. thread (map ?g kvs) st = Some r"
  proof (rule thread_total [where good = "\<lambda>st. grows hp0 (fst st) \<and> unvisited hp0 st \<le> U"])
    fix kv st assume "kv \<in> set kvs" "grows hp0 (fst st) \<and> unvisited hp0 st \<le> U"
    from step [OF this] show "\<exists>r. ?g kv st = Some r" by blast
  next
    fix kv st x st'
    assume "kv \<in> set kvs" "grows hp0 (fst st) \<and> unvisited hp0 st \<le> U" "?g kv st = Some (x, st')"
    with step [of kv st] show "grows hp0 (fst st') \<and> unvisited hp0 st' \<le> U" by auto
  qed (rule VDict.prems(3))
  then show ?case by (auto simp: comp_def)
next
  case (VFunc ps block cl)
  from VFunc.prems(1) have "list_all (\<lambda>a. a < length hp0) cl" by (simp add: closed_val_def)
  with tot [of st cl] VFunc.prems show ?case by auto
qed simp_all

lemma deepcopy_frames_total:
  assumes closed: "closed_heap hp0"
  shows "grows hp0 (fst st) \<Longrightarrow> list_all (\<lambda>a. a < length hp0) as
         \<Longrightarrow> length as + 1 + unvisited hp0 st * (closure_bound hp0 + 1) \<le> n
         \<Longrightarrow> \<exists>r. deepcopy_frames n as st = Some r"
proof (induction n arbitrary: as st)
  case 0
  then show ?case by simp
next
  case (Suc n)
  let ?L = "closure_bound hp0"
  show ?case
  proof (cases as)
    case Nil
    then show ?thesis by simp
  next
    case (Cons a as')
    from Suc.prems(2) Cons have a: "a < length hp0"
      and inb': "list_all (\<lambda>a. a < length hp0) as'" by simp_all
    from Suc.prems(3) Cons
    have bound: "length as' + 1 + unvisited hp0 st * (?L + 1) \<le> n" by simp
    show ?thesis
    proof (cases "map_of (snd st) a")
      case (Some b)
      from Suc.IH [OF Suc.prems(1) inb' bound] obtain r where
        "deepcopy_frames n as' st = Some r" by blast
      with Cons Some show ?thesis by (cases r) simp
    next
      case None
      let ?b = "length (fst st)"
      let ?items = "frame_at (fst st) a"
      let ?st1 = "(fst st @ [[]], (a, ?b) # snd st)"
      let ?g = "\<lambda>kv. deepcopy_val (deepcopy_frames n) (snd kv)"
      let ?U = "unvisited hp0 ?st1"
      have spec: "frames_spec hp0 (deepcopy_frames n)" by (rule deepcopy_frames_spec [OF closed])
      have items: "?items = frame_at hp0 a" using grows_frame_at [OF Suc.prems(1) a] .
      have less: "?U < unvisited hp0 st"
        using unvisited_add [OF a None, of "fst st @ [[]]" ?b "fst st"] by simp
      have g1: "grows hp0 (fst ?st1)" using Suc.prems(1) by (auto simp: grows_iff)
      have tot: "\<exists>r. deepcopy_frames n cl st' = Some r"
        if "grows hp0 (fst st')" "unvisited hp0 st' \<le> ?U"
          "list_all (\<lambda>a. a < length hp0) cl" "length cl \<le> ?L" for cl st'
      proof (rule Suc.IH [OF that(1) that(3)])
        from that(2) have "unvisited hp0 st' * (?L + 1) \<le> ?U * (?L + 1)"
          by (rule mult_le_mono1)
        with that(4) have "length cl + 1 + unvisited hp0 st' * (?L + 1) \<le> (?U + 1) * (?L + 1)"
          by simp
        also have "\<dots> \<le> unvisited hp0 st * (?L + 1)"
          using less by (intro mult_le_mono1) simp
        also have "\<dots> \<le> n" using bound by simp
        finally show "length cl + 1 + unvisited hp0 st' * (?L + 1) \<le> n" .
      qed
      have keep: "grows hp0 (fst st'') \<and> unvisited hp0 st'' \<le> ?U"
        if "kv \<in> set ?items" "grows hp0 (fst st') \<and> unvisited hp0 st' \<le> ?U"
          "?g kv st' = Some (x, st'')" for kv st' x st''
      proof -
        from closed_heap_items [OF closed a] that(1) items
        have c: "closed_val (length hp0) (snd kv)" by simp
        from that(2) have gg: "grows hp0 (fst st')" by simp
        from deepcopy_val_spec [OF spec c gg that(3)] have "post hp0 st' st''" by simp
        then show ?thesis using that(2) by (rule good_step)
      qed
      have "\<exists>r. thread (map ?g ?items) ?st1 = Some r"
      proof (rule thread_total [where good = "\<lambda>st. grows hp0 (fst st) \<and> unvisited hp0 st \<le> ?U"])
        fix kv st' assume kv: "kv \<in> set ?items"
          and g: "grows hp0 (fst st') \<and> unvisited hp0 st' \<le> ?U"
        from closed_heap_items [OF closed a] kv items
        have c: "closed_val (length hp0) (snd kv)" by simp
        from closure_bound_items [OF a] kv items have b: "max_closure (snd kv) \<le> ?L" by simp
        show "\<exists>r. ?g kv st' = Some r"
          by (rule deepcopy_val_total [OF spec tot c b g])
      next
        fix kv st' x st''
        assume "kv \<in> set ?items" "grows hp0 (fst st') \<and> unvisited hp0 st' \<le> ?U"
          "?g kv st' = Some (x, st'')"
        then show "grows hp0 (fst st'') \<and> unvisited hp0 st'' \<le> ?U" by (rule keep)
      next
        show "grows hp0 (fst ?st1) \<and> unvisited hp0 ?st1 \<le> ?U" using g1 by simp
      qed
      then obtain vs st2 where t: "thread (map ?g ?items) ?st1 = Some (vs, st2)" by auto
      have "post hp0 ?st1 st2 \<and> list_all2 (\<lambda>kv x. True) ?items vs"
      proof (rule thread_map_spec [where R = "\<lambda>kv x st. True", OF _ _ g1 t])
        fix kv st x st'
        assume kv: "kv \<in> set ?items" and gg: "grows hp0 (fst st)" and rr: "?g kv st = Some (x, st')"
        from closed_heap_items [OF closed a] kv items
        have c: "closed_val (length hp0) (snd kv)" by simp
        from deepcopy_val_spec [OF spec c gg rr] show "post hp0 st st' \<and> True" by simp
      qed simp
      then have p12: "post hp0 ?st1 st2" by simp
      let ?st3 = "((fst st2)[?b := zip (map fst ?items) vs], snd st2)"
      from post_grows [OF p12] obtain ys where hp2: "fst st2 = (fst st @ [[]]) @ ys"
        unfolding grows_iff by auto
      from Suc.prems(1) obtain zs where "fst st = hp0 @ zs" unfolding grows_iff by blast
      with hp2 have g3: "grows hp0 (fst ?st3)"
        unfolding grows_iff by (simp add: list_update_append)
      have "unvisited hp0 ?st3 = unvisited hp0 st2" by (simp add: unvisited_def)
      with unvisited_mono [OF p12] less have "unvisited hp0 ?st3 \<le> unvisited hp0 st" by simp
      then have "unvisited hp0 ?st3 * (?L + 1) \<le> unvisited hp0 st * (?L + 1)"
        by (rule mult_le_mono1)
      then have "length as' + 1 + unvisited hp0 ?st3 * (?L + 1)
            \<le> length as' + 1 + unvisited hp0 st * (?L + 1)"
        by simp
      with bound have "length as' + 1 + unvisited hp0 ?st3 * (?L + 1) \<le> n" by simp
      from Suc.IH [OF g3 inb' this] obtain r where
        "deepcopy_frames n as' ?st3 = Some r" by blast
      with Cons None t show ?thesis by (cases r) (simp add: Let_def)
    qed
  qed
qed

subsection \<open>Lookups in the stack and in its copy\<close>

lemma lookup_in_cong:
  "\<forall>a\<in>set as. frame_at hp a = frame_at hp' a \<Longrightarrow> lookup_in x as hp = lookup_in x as hp'"
  by (induction as) (auto split: option.splits)

lemma lookup_in_found:
  "lookup_in x as hp = Some v \<Longrightarrow> \<exists>a\<in>set as. (x, v) \<in> set (frame_at hp a)"
  by (induction as) (auto split: option.splits dest: map_of_SomeD)

lemma lookup_in_renamed:
  "\<forall>a\<in>set as. frame_at hp' (\<sigma> a) = map (apsnd f) (frame_at hp a)
   \<Longrightarrow> lookup_in x (map \<sigma> as) hp' = map_option f (lookup_in x as hp)"
  by (induction as) (auto simp: map_of_apsnd split: option.splits)

lemma assign_in_frames:
  "assign_in x v as hp = Some hp' \<Longrightarrow>
     length hp' = length hp \<and> (\<forall>b. b \<notin> set as \<longrightarrow> frame_at hp' b = frame_at hp b)"
  by (induction as) (auto simp: frame_at_def split: if_splits)

lemma assign_variable_frames:
  "length (heap (assign_variable x v s)) = length (heap s)
   \<and> (\<forall>b. b \<notin> set (scopes s) \<longrightarrow> frame_at (heap (assign_variable x v s)) b = frame_at (heap s) b)"
  using assign_in_frames [of x v "rev (scopes s)" "heap s"]
  by (auto simp: assign_variable_def split: option.splits)

lemma map_of_frame_set: "map_of (frame_set k v f) = (map_of f)(k \<mapsto> v)"
  by (induction f) (auto simp: fun_eq_iff)

lemma bind_params_other: "x \<notin> set params \<Longrightarrow> map_of (bind_params params args) x = None"
proof -
  have "\<And>f. x \<notin> fst ` set kvs \<Longrightarrow>
          map_of (fold (\<lambda>pa f. frame_set (fst pa) (snd pa) f) kvs f) x = map_of f x" for kvs
    by (induction kvs) (auto simp: map_of_frame_set)
  moreover assume "x \<notin> set params"
  then have "x \<notin> fst ` set (zip params args)" by (auto dest: set_zip_leftD)
  ultimately show ?thesis by (simp add: bind_params_def)
qed

lemma declare_then_assign_binds:
  assumes "scopes s \<noteq> []" "last (scopes s) < length (heap s)"
      and "declare_variable f s = (r, s1)"
  shows "r = Normal \<and> scopes s1 = scopes s \<and> length (heap s1) = length (heap s)
         \<and> (\<forall>b. b \<notin> set (scopes s) \<longrightarrow> frame_at (heap s1) b = frame_at (heap s) b)
         \<and> get_combined_scope (assign_variable f v s1) f = Some v"
proof -
  let ?a = "last (scopes s)"
  from assms(1) obtain as where sc: "rev (scopes s) = ?a # as"
    by (cases "scopes s" rule: rev_cases) auto
  from assms(1) have ain: "?a \<in> set (scopes s)" by simp
  from assms have r: "r = Normal" and sc1: "scopes s1 = scopes s"
    and len: "length (heap s1) = length (heap s)"
    and has: "frame_has f (frame_at (heap s1) ?a)"
    by (auto simp: declare_variable_def Let_def eungdi_def frame_at_def frame_has_def
                   map_of_frame_set split: if_splits)
  have oth: "\<forall>b. b \<notin> set (scopes s) \<longrightarrow> frame_at (heap s1) b = frame_at (heap s) b"
  proof (intro allI impI)
    fix b assume "b \<notin> set (scopes s)"
    with ain have "b \<noteq> ?a" by blast
    with assms show "frame_at (heap s1) b = frame_at (heap s) b"
      by (auto simp: declare_variable_def Let_def eungdi_def frame_at_def split: if_splits)
  qed
  let ?hp = "(heap s1)[?a := frame_set f v (frame_at (heap s1) ?a)]"
  have a1: "assign_in f v (rev (scopes s1)) (heap s1) = Some ?hp"
    unfolding sc1 sc using has by simp
  have "lookup_in f (?a # as) ?hp = Some v"
    using len assms(2) by (simp add: frame_at_def map_of_frame_set)
  then have "lookup_in f (rev (scopes s1)) ?hp = Some v"
    unfolding sc1 sc .
  then have "get_combined_scope (assign_variable f v s1) f = Some v"
    by (simp add: assign_variable_def a1 get_combined_scope_def)
  with r sc1 len oth show ?thesis by simp
qed

lemma enter_call_lookup:
  assumes "x \<notin> set params" and "\<forall>b\<in>set cl. b < length (heap t)"
  shows "get_combined_scope (enter_call params cl args t) x = lookup_in x (rev cl) (heap t)"
proof -
  let ?bp = "bind_params params args"
  let ?hp = "heap t @ [?bp]"
  have sc: "scopes (enter_call params cl args t) = cl @ [length (heap t)]"
    and hp: "heap (enter_call params cl args t) = ?hp"
    by (simp_all add: enter_call_def Let_def)
  have "frame_at ?hp (length (heap t)) = ?bp" by (simp add: frame_at_def)
  then have 1: "lookup_in x (length (heap t) # rev cl) ?hp = lookup_in x (rev cl) ?hp"
    using bind_params_other [OF assms(1), of args] by simp
  have "\<forall>b\<in>set (rev cl). frame_at ?hp b = frame_at (heap t) b"
    using assms(2) by (auto simp: frame_at_def nth_append)
  from lookup_in_cong [OF this, of x] 1 show ?thesis
    unfolding get_combined_scope_def sc hp by simp
qed

subsection \<open>The closure of a function definition\<close>

text \<open>
  C2. Let a function \<open>f\<close> be defined in a well-formed state \<open>s\<close> in which the name \<open>x\<close>
  is bound to a value \<open>v\<close>. With the bound \<open>copy_fuel s\<close> (or any larger one) the
  definition ends normally, in a state \<open>s1\<close> with the same stack, and there is a memo
  \<open>m\<close> of the copy such that:
  \<^item> \<open>f\<close> is bound to a function object whose closure has one frame per frame of the
    stack, the copies of these frames;
  \<^item> the heap of \<open>s1\<close> holds a deep copy of everything the stack reaches (\<open>snapshot\<close>):
    every frame reachable from the stack through closures of function objects has
    one copy of its own, a new frame with the same names, whose function objects have
    the copies as their closures;
  \<^item> the frames of the closure are new and not on the stack;
  \<^item> the closure binds \<open>x\<close> to the copy of \<open>v\<close>, in which every closure frame is a new
    frame; the copy of a value that holds no function object is the value itself;
  \<^item> after any assignment \<open>y := w\<close> made in the defining scope afterwards (in
    particular \<open>x := 2\<close>), the state in which \<^verbatim>\<open>Function.call\<close> starts the body of \<open>f\<close>
    still binds \<open>x\<close> to the copy of \<open>v\<close>, for every argument list, as long as \<open>x\<close> is
    not a parameter of \<open>f\<close>.
\<close>

theorem closure_is_snapshot:
  assumes wf: "wf_state s" and fuel: "copy_fuel s \<le> n"
      and x: "get_combined_scope s x = Some v"
  shows "\<exists>s1 m. process_func_def n f ps block s = Some (Normal, s1)
           \<and> scopes s1 = scopes s
           \<and> get_combined_scope s1 f = Some (VFunc ps block (map (memo_fun m) (scopes s)))
           \<and> snapshot (heap s) (heap s1) m (scopes s)
           \<and> list_all (\<lambda>b. length (heap s) \<le> b \<and> b \<notin> set (scopes s))
                (map (memo_fun m) (scopes s))
           \<and> list_all (\<lambda>b. length (heap s) \<le> b) (closure_addrs (rename (memo_fun m) v))
           \<and> (func_free v \<longrightarrow> rename (memo_fun m) v = v)
           \<and> (\<forall>y w args. x \<notin> set ps \<longrightarrow>
                 get_combined_scope
                   (enter_call ps (map (memo_fun m) (scopes s)) args (assign_variable y w s1)) x
                 = Some (rename (memo_fun m) v))"
proof -
  let ?K = "length (heap s)"
  from wf have ne: "scopes s \<noteq> []" and inb: "list_all (\<lambda>a. a < ?K) (scopes s)"
    and closed: "closed_heap (heap s)" by (simp_all add: wf_state_def)
  from fuel have "length (scopes s) + 1 + unvisited (heap s) (heap s, []) * (closure_bound (heap s) + 1) \<le> n"
    by (simp add: copy_fuel_def unvisited_start)
  from deepcopy_frames_total [OF closed _ inb this] obtain cl st where
    dc: "deepcopy_frames n (scopes s) (heap s, []) = Some (cl, st)" by auto
  let ?m = "snd st"
  let ?\<sigma> = "memo_fun ?m"
  from deepcopy_scopes [OF closed inb dc]
  have gr: "grows (heap s) (fst st)" and cl: "cl = map ?\<sigma> (scopes s)"
    and snap: "snapshot (heap s) (fst st) ?m (scopes s)" by simp_all
  from snap have roots: "\<forall>a\<in>set (scopes s). map_of ?m a \<noteq> None"
    and dist: "distinct (map fst ?m)" "distinct (map snd ?m)"
    and ents: "\<forall>ab\<in>set ?m. fst ab < ?K \<and> ?K \<le> snd ab \<and> snd ab < length (fst st)
                 \<and> frame_at (fst st) (snd ab) = map (apsnd (rename ?\<sigma>)) (frame_at (heap s) (fst ab))
                 \<and> (\<forall>kv\<in>set (frame_at (heap s) (fst ab)). covered ?m (snd kv))"
    unfolding snapshot_def list_all_iff by blast+
  have ent: "?K \<le> ?\<sigma> a \<and> ?\<sigma> a < length (fst st)
             \<and> frame_at (fst st) (?\<sigma> a) = map (apsnd (rename ?\<sigma>)) (frame_at (heap s) a)
             \<and> (\<forall>kv\<in>set (frame_at (heap s) a). covered ?m (snd kv))"
    if "map_of ?m a \<noteq> None" for a
  proof -
    from that obtain b where b: "map_of ?m a = Some b" by auto
    then have "(a, b) \<in> set ?m" by (rule map_of_SomeD)
    with ents b show ?thesis by (force simp: memo_fun_def)
  qed
  let ?s' = "s\<lparr>heap := fst st\<rparr>"
  obtain r s2 where dv: "declare_variable f ?s' = (r, s2)" by (cases "declare_variable f ?s'")
  from ne inb have "last (scopes s) < ?K" by (simp add: list_all_iff)
  with grows_length [OF gr] have la: "last (scopes ?s') < length (heap ?s')" by simp
  from ne have ne': "scopes ?s' \<noteq> []" by simp
  let ?s1 = "assign_variable f (VFunc ps block cl) s2"
  from declare_then_assign_binds [OF ne' la dv, of "VFunc ps block cl"]
  have rn: "r = Normal" and sc2: "scopes s2 = scopes s" and len2: "length (heap s2) = length (fst st)"
    and oth2: "\<forall>b. b \<notin> set (scopes s) \<longrightarrow> frame_at (heap s2) b = frame_at (fst st) b"
    and bound: "get_combined_scope ?s1 f = Some (VFunc ps block cl)"
    by simp_all
  from dc dv rn have run: "process_func_def n f ps block s = Some (Normal, ?s1)"
    by (simp add: process_func_def_def)
  from assign_variable_frames [of f "VFunc ps block cl" s2] sc2 len2 oth2
  have sc1: "scopes ?s1 = scopes s" and len1: "length (heap ?s1) = length (fst st)"
    and oth1: "\<forall>b. b \<notin> set (scopes s) \<longrightarrow> frame_at (heap ?s1) b = frame_at (fst st) b"
    by simp_all
  have off: "b \<notin> set (scopes s)" if "?K \<le> b" for b
    using inb that by (auto simp: list_all_iff)
  have snap1: "snapshot (heap s) (heap ?s1) ?m (scopes s)"
    using roots dist ents oth1 off len1 by (simp add: snapshot_def list_all_iff)
  have fresh: "\<forall>b\<in>set cl. ?K \<le> b \<and> b < length (fst st) \<and> b \<notin> set (scopes s)"
    unfolding cl using roots ent off by auto
  from x have found: "lookup_in x (rev (scopes s)) (heap s) = Some v"
    by (simp add: get_combined_scope_def)
  from lookup_in_found [OF this] obtain a where a: "a \<in> set (scopes s)"
    and xv: "(x, v) \<in> set (frame_at (heap s) a)" by auto
  from roots a ent [of a] xv have cv: "covered ?m v" by force
  have new: "list_all (\<lambda>b. ?K \<le> b) (closure_addrs (rename ?\<sigma> v))"
    unfolding closure_addrs_rename using cv ent by (auto simp: covered_def list_all_iff)
  have "\<forall>a\<in>set (rev (scopes s)). frame_at (fst st) (?\<sigma> a)
          = map (apsnd (rename ?\<sigma>)) (frame_at (heap s) a)"
    using roots ent by simp
  from lookup_in_renamed [OF this, of x] found
  have seen: "lookup_in x (rev cl) (fst st) = Some (rename ?\<sigma> v)"
    unfolding cl by (simp add: rev_map)
  have call: "\<forall>y w args. x \<notin> set ps \<longrightarrow>
                 get_combined_scope (enter_call ps cl args (assign_variable y w ?s1)) x
                 = Some (rename ?\<sigma> v)"
  proof (intro allI impI)
    fix y w args assume xp: "x \<notin> set ps"
    let ?t = "assign_variable y w ?s1"
    from assign_variable_frames [of y w ?s1] sc1 len1 oth1
    have lent: "length (heap ?t) = length (fst st)"
      and otht: "\<forall>b. b \<notin> set (scopes s) \<longrightarrow> frame_at (heap ?t) b = frame_at (fst st) b"
      by simp_all
    from fresh lent have "\<forall>b\<in>set cl. b < length (heap ?t)" by simp
    from enter_call_lookup [OF xp this, of args]
    have "get_combined_scope (enter_call ps cl args ?t) x = lookup_in x (rev cl) (heap ?t)" .
    also have "\<dots> = lookup_in x (rev cl) (fst st)"
      by (rule lookup_in_cong) (use fresh otht in auto)
    finally show "get_combined_scope (enter_call ps cl args ?t) x = Some (rename ?\<sigma> v)"
      using seen by simp
  qed
  have "list_all (\<lambda>b. ?K \<le> b \<and> b \<notin> set (scopes s)) (map ?\<sigma> (scopes s))"
    using fresh unfolding cl by (simp add: list_all_iff)
  with run sc1 bound snap1 new call rename_func_free [of v ?\<sigma>] show ?thesis
    unfolding cl by blast
qed

text \<open>
  The theorem at scenario F, where the value of \<open>x\<close> is the number 1, and at the
  definition of \<open>f\<close> in \<open>deep_program\<close>, looking at the name \<open>g\<close>, whose value is a
  function object: the closure of \<open>f\<close> binds \<open>g\<close> to a function object with a
  closure frame of its own. With them the runs of the two programs. In scenario F
  the call writes 1 and the top level then writes 2. In \<open>deep_program\<close> the two calls
  of \<open>g\<close> write 1 and 2, the two calls of \<open>f\<close>, which run the copy of \<open>g\<close>, write 1 and
  2 again, and the top level still has 1.
\<close>

theorem closure_is_snapshot_witness:
  "execute_lines core_host 3 (take 2 snapshot_program) (init_state False False)
     = Some (Normal, state_x1)
   \<and> wf_state state_x1 \<and> copy_fuel state_x1 \<le> 3
   \<and> get_combined_scope state_x1 ''x'' = Some (VInt 1)
   \<and> process_func_def 3 ''f'' [] [L_Cmd (C_Output ''x'')] state_x1 = Some (Normal, state_x1_f)
   \<and> get_combined_scope state_x1_f ''f'' = Some (VFunc [] [L_Cmd (C_Output ''x'')] [1])
   \<and> snapshot (heap state_x1) (heap state_x1_f) [(0, 1)] (scopes state_x1)
   \<and> get_combined_scope (assign_variable ''x'' (VInt 2) state_x1_f) ''x'' = Some (VInt 2)
   \<and> get_combined_scope (enter_call [] [1] [] (assign_variable ''x'' (VInt 2) state_x1_f)) ''x''
       = Some (VInt 1)
   \<and> map_option (\<lambda>r. (fst r, logged (snd r)))
        (interpret_program core_host 10 snapshot_program (init_state False False))
       = Some (Finished, [(M_Value (VInt 1), False), (M_Value (VInt 2), False)])
   \<and> execute_lines core_host 6 (take 6 deep_program) (init_state False False)
       = Some (Normal, state_g)
   \<and> wf_state state_g \<and> copy_fuel state_g \<le> 6
   \<and> get_combined_scope state_g ''g'' = Some (VFunc [] counter_body [1])
   \<and> map_option (\<lambda>r. (fst r, get_combined_scope (snd r) ''f'',
                        get_combined_scope (enter_call [] [2] [] (snd r)) ''g''))
        (process_func_def 6 ''f'' [] [L_FuncCall ''g'' []] state_g)
       = Some (Normal, Some (VFunc [] [L_FuncCall ''g'' []] [2]), Some (VFunc [] counter_body [3]))
   \<and> map_option (\<lambda>r. (fst r, logged (snd r)))
        (interpret_program core_host 20 deep_program (init_state False False))
       = Some (Finished, [(M_Value (VInt 1), False), (M_Value (VInt 2), False),
                          (M_Value (VInt 1), False), (M_Value (VInt 2), False),
                          (M_Value (VInt 1), False)])"
proof -
  have pre: "execute_lines core_host 3 (take 2 snapshot_program) (init_state False False)
     = Some (Normal, state_x1)" by code_simp
  have wf: "wf_state state_x1" by code_simp
  have fuel: "copy_fuel state_x1 \<le> 3" by code_simp
  have x: "get_combined_scope state_x1 ''x'' = Some (VInt 1)" by code_simp
  have df: "process_func_def 3 ''f'' [] [L_Cmd (C_Output ''x'')] state_x1 = Some (Normal, state_x1_f)"
    by code_simp
  have f: "get_combined_scope state_x1_f ''f'' = Some (VFunc [] [L_Cmd (C_Output ''x'')] [1])"
    by code_simp
  have sn: "snapshot (heap state_x1) (heap state_x1_f) [(0, 1)] (scopes state_x1)"
    by code_simp
  have x2: "get_combined_scope (assign_variable ''x'' (VInt 2) state_x1_f) ''x'' = Some (VInt 2)"
    by code_simp
  have sc: "scopes state_x1 = [0]" by code_simp
  from closure_is_snapshot [OF wf fuel x, of "''f''" "[]" "[L_Cmd (C_Output ''x'')]"] df
  obtain m where
    b: "get_combined_scope state_x1_f ''f''
          = Some (VFunc [] [L_Cmd (C_Output ''x'')] (map (memo_fun m) (scopes state_x1)))"
    and c: "\<forall>y w args. ''x'' \<notin> set [] \<longrightarrow>
              get_combined_scope (enter_call [] (map (memo_fun m) (scopes state_x1)) args
                 (assign_variable y w state_x1_f)) ''x''
              = Some (rename (memo_fun m) (VInt 1))"
    by auto
  from b f have "map (memo_fun m) (scopes state_x1) = [1]" by simp
  with c have seen: "get_combined_scope (enter_call [] [1] [] (assign_variable ''x'' (VInt 2) state_x1_f)) ''x''
       = Some (VInt 1)" by simp
  have run: "map_option (\<lambda>r. (fst r, logged (snd r)))
        (interpret_program core_host 10 snapshot_program (init_state False False))
       = Some (Finished, [(M_Value (VInt 1), False), (M_Value (VInt 2), False)])"
    by code_simp
  have pre2: "execute_lines core_host 6 (take 6 deep_program) (init_state False False)
       = Some (Normal, state_g)" by code_simp
  have wf2: "wf_state state_g" by code_simp
  have fuel2: "copy_fuel state_g \<le> 6" by code_simp
  have g: "get_combined_scope state_g ''g'' = Some (VFunc [] counter_body [1])" by code_simp
  have d2: "map_option (\<lambda>r. (fst r, get_combined_scope (snd r) ''f'',
                        get_combined_scope (enter_call [] [2] [] (snd r)) ''g''))
        (process_func_def 6 ''f'' [] [L_FuncCall ''g'' []] state_g)
       = Some (Normal, Some (VFunc [] [L_FuncCall ''g'' []] [2]), Some (VFunc [] counter_body [3]))"
    by code_simp
  have run2: "map_option (\<lambda>r. (fst r, logged (snd r)))
        (interpret_program core_host 20 deep_program (init_state False False))
       = Some (Finished, [(M_Value (VInt 1), False), (M_Value (VInt 2), False),
                          (M_Value (VInt 1), False), (M_Value (VInt 2), False),
                          (M_Value (VInt 1), False)])"
    by code_simp
  from pre wf fuel x df f sn x2 seen run pre2 wf2 fuel2 g d2 run2 show ?thesis by blast
qed

end
